theory Spec2Isabelle
  imports Complex_Main "HOL-Library.AList"
begin

section \<open>Shared conventions\<close>

text \<open>
  The three classes verified here are \<^verbatim>\<open>QueryCache\<close> (caching/query_cache.py),
  \<^verbatim>\<open>ConnectionPool\<close> with \<^verbatim>\<open>PooledConnection\<close> (connection/connection_pool.py) and
  \<^verbatim>\<open>QueryAnalyzer\<close> (query/query_analyzer.py). Every method becomes a function that
  takes the object state and returns the new one. A reading of \<^verbatim>\<open>time.time()\<close> is an
  argument of the call (one reading per call, a real number of seconds; float rounding is
  not modelled). An exception is a value of \<open>py_error\<close>.
\<close>

datatype py_error = ValueError | TimeoutError | DatabaseError

section \<open>QueryCache\<close>

text \<open>
  \<^verbatim>\<open>self.cache\<close> is a Python dict: keys are unique and iteration follows insertion
  order, which decides ties in \<^verbatim>\<open>min\<close>. It is an association list in insertion order;
  \<open>AList.update\<close> overwrites in place or appends, as dict assignment does, and
  \<open>AList.delete\<close> is \<^verbatim>\<open>del\<close>. An entry is the pair (timestamp, result).
\<close>

record 'v query_cache =
  ttl :: real
  max_size :: int
  cache :: "(string \<times> (real \<times> 'v)) list"
  hits :: nat
  misses :: nat
  evictions :: nat

definition QueryCache_init :: "real \<Rightarrow> int \<Rightarrow> 'v query_cache" where
  "QueryCache_init ttl0 max_size0 =
     \<lparr>ttl = ttl0, max_size = max_size0, cache = [], hits = 0, misses = 0, evictions = 0\<rparr>"

text \<open>\<^verbatim>\<open>str.isspace\<close>, \<^verbatim>\<open>str.strip\<close> and \<^verbatim>\<open>str.lower\<close> on ASCII text.\<close>

definition isspace :: "char \<Rightarrow> bool" where
  "isspace c = (let n = (of_char c :: nat) in (9 \<le> n \<and> n \<le> 13) \<or> (28 \<le> n \<and> n \<le> 32))"

definition strip :: "string \<Rightarrow> string" where
  "strip s = rev (dropWhile isspace (rev (dropWhile isspace s)))"

definition lower :: "string \<Rightarrow> string" where
  "lower s = map (\<lambda>c. let n = (of_char c :: nat) in
                        if 65 \<le> n \<and> n \<le> 90 then char_of (n + 32) else c) s"

text \<open>
  \<^verbatim>\<open>_generate_key\<close>. The argument \<open>md5_json\<close> stands for
  \<^verbatim>\<open>hashlib.md5(json.dumps(cache_data, sort_keys=True).encode()).hexdigest()\<close> as a
  function of the two fields of \<^verbatim>\<open>cache_data\<close>; nothing is assumed about it.
  \<^verbatim>\<open>params or []\<close> turns \<^verbatim>\<open>None\<close> into the empty list.
\<close>

definition generate_key ::
  "(string \<Rightarrow> 'p list \<Rightarrow> string) \<Rightarrow> string \<Rightarrow> 'p list option \<Rightarrow> string" where
  "generate_key md5_json query params =
     md5_json (lower (strip query)) (case params of None \<Rightarrow> [] | Some ps \<Rightarrow> ps)"

text \<open>
  \<^verbatim>\<open>QueryCache.get\<close>: the returned pair is the result (\<open>None\<close> for Python's
  \<^verbatim>\<open>None\<close>) and the cache after the call.
\<close>

definition QueryCache_get ::
  "(string \<Rightarrow> 'p list \<Rightarrow> string) \<Rightarrow> real \<Rightarrow> 'v query_cache \<Rightarrow> string \<Rightarrow> 'p list option
     \<Rightarrow> 'v option \<times> 'v query_cache" where
  "QueryCache_get md5_json now C query params =
     (let cache_key = generate_key md5_json query params in
      case map_of (cache C) cache_key of
        Some (cached_time, result) \<Rightarrow>
          if now - cached_time < ttl C then (Some result, C\<lparr>hits := hits C + 1\<rparr>)
          else (None, C\<lparr>cache := AList.delete cache_key (cache C), misses := misses C + 1\<rparr>)
      | None \<Rightarrow> (None, C\<lparr>misses := misses C + 1\<rparr>))"

text \<open>
  \<^verbatim>\<open>min(self.cache.keys(), key=lambda k: self.cache[k][0])\<close>: the scan visits the
  keys in insertion order, each with the timestamp of its own entry, keeps the first key
  and replaces it only by a key with a strictly smaller timestamp; on an empty dict
  \<^verbatim>\<open>min\<close> raises ValueError (\<open>None\<close> here).
\<close>

definition oldest_key :: "(string \<times> (real \<times> 'v)) list \<Rightarrow> string option" where
  "oldest_key c =
     (case c of
        [] \<Rightarrow> None
      | (k0, (t0, _)) # rest \<Rightarrow>
          Some (fst (foldl (\<lambda>(bk, bt) (k, (t, _)). if t < bt then (k, t) else (bk, bt))
                           (k0, t0) rest)))"

definition QueryCache_set ::
  "(string \<Rightarrow> 'p list \<Rightarrow> string) \<Rightarrow> real \<Rightarrow> 'v query_cache \<Rightarrow> string \<Rightarrow> 'p list option \<Rightarrow> 'v
     \<Rightarrow> py_error + 'v query_cache" where
  "QueryCache_set md5_json now C query params result =
     (let cache_key = generate_key md5_json query params in
      if int (length (cache C)) \<ge> max_size C then
        (case oldest_key (cache C) of
           None \<Rightarrow> Inl ValueError
         | Some oldest \<Rightarrow>
             Inr (C\<lparr>cache := AList.update cache_key (now, result) (AList.delete oldest (cache C)),
                    evictions := evictions C + 1\<rparr>))
      else Inr (C\<lparr>cache := AList.update cache_key (now, result) (cache C)\<rparr>))"

text \<open>
  \<^verbatim>\<open>QueryCache.invalidate\<close>: \<^verbatim>\<open>if query:\<close> is false for \<^verbatim>\<open>None\<close> and for the empty
  string.
\<close>

definition QueryCache_invalidate ::
  "(string \<Rightarrow> 'p list \<Rightarrow> string) \<Rightarrow> 'v query_cache \<Rightarrow> string option \<Rightarrow> 'p list option
     \<Rightarrow> 'v query_cache" where
  "QueryCache_invalidate md5_json C query params =
     (case query of
        None \<Rightarrow> C\<lparr>cache := []\<rparr>
      | Some q \<Rightarrow>
          if q \<noteq> [] then
            (let cache_key = generate_key md5_json q params in
             if cache_key \<in> fst ` set (cache C)
             then C\<lparr>cache := AList.delete cache_key (cache C)\<rparr> else C)
          else C\<lparr>cache := []\<rparr>)"

definition QueryCache_clear :: "'v query_cache \<Rightarrow> 'v query_cache" where
  "QueryCache_clear C = C\<lparr>cache := [], hits := 0, misses := 0, evictions := 0\<rparr>"

text \<open>
  \<^verbatim>\<open>get_stats\<close> without the formatted \<^verbatim>\<open>hit_rate\<close> string.
\<close>

record cache_stats =
  cache_size :: nat
  stats_max_size :: int
  stats_ttl_seconds :: real
  stats_hits :: nat
  stats_misses :: nat
  stats_evictions :: nat
  stats_total_requests :: nat

definition QueryCache_get_stats :: "'v query_cache \<Rightarrow> cache_stats" where
  "QueryCache_get_stats C =
     \<lparr>cache_size = length (cache C), stats_max_size = max_size C, stats_ttl_seconds = ttl C,
      stats_hits = hits C, stats_misses = misses C, stats_evictions = evictions C,
      stats_total_requests = hits C + misses C\<rparr>"

section \<open>ConnectionPool\<close>

text \<open>
  A \<^verbatim>\<open>PooledConnection\<close> is a mutable object shared between the pool's collections and
  the caller, and \<^verbatim>\<open>conn in self.in_use\<close> compares object identity. So the objects
  live in a store \<open>conns\<close>, and the collections and the callers hold names of objects:
  the k-th object a pool creates is named k (counting from 0). \<open>connection_closed\<close> records
  whether \<^verbatim>\<open>close()\<close> was called on the wrapped \<^verbatim>\<open>sqlite3\<close> connection.
\<close>

record pooled_connection =
  created_at :: real
  last_used :: real
  conn_in_use :: bool
  connection_closed :: bool

text \<open>
  \<open>available\<close> is the content of \<^verbatim>\<open>Queue(maxsize=max_connections)\<close>, oldest first.
\<close>

record connection_pool =
  min_connections :: int
  max_connections :: int
  timeout :: real
  max_age :: real
  available :: "nat list"
  in_use :: "nat list"
  total_created :: nat
  total_requests :: nat
  total_hits :: nat
  total_misses :: nat
  conns :: "nat \<Rightarrow> pooled_connection"

text \<open>
  \<^verbatim>\<open>Queue.full()\<close>: a queue whose \<^verbatim>\<open>maxsize\<close> is zero or negative is unbounded.
\<close>

definition queue_full :: "connection_pool \<Rightarrow> bool" where
  "queue_full P = (0 < max_connections P \<and> max_connections P \<le> int (length (available P)))"

definition is_expired :: "real \<Rightarrow> pooled_connection \<Rightarrow> real \<Rightarrow> bool" where
  "is_expired now c age_limit = (let age = now - created_at c in age > age_limit)"

text \<open>\<^verbatim>\<open>_create_connection\<close>; \<^verbatim>\<open>sqlite3.connect\<close> is taken to succeed.\<close>

definition create_connection :: "real \<Rightarrow> connection_pool \<Rightarrow> nat \<times> connection_pool" where
  "create_connection now P =
     (let pooled_conn = total_created P in
      (pooled_conn,
       P\<lparr>conns := (conns P)(pooled_conn :=
              \<lparr>created_at = now, last_used = now, conn_in_use = False, connection_closed = False\<rparr>),
         total_created := total_created P + 1\<rparr>))"

text \<open>
  \<^verbatim>\<open>_initialize_pool\<close>: \<open>n\<close> iterations of the loop. \<^verbatim>\<open>Queue.put\<close> without a
  timeout on a full queue never returns; then the result is \<open>None\<close>.
\<close>

fun initialize_pool :: "nat \<Rightarrow> real \<Rightarrow> connection_pool \<Rightarrow> connection_pool option" where
  "initialize_pool 0 now P = Some P"
| "initialize_pool (Suc n) now P =
     (case create_connection now P of
        (conn, P1) \<Rightarrow>
          if queue_full P1 then None
          else initialize_pool n now (P1\<lparr>available := available P1 @ [conn]\<rparr>))"

text \<open>
  The constructor. \<^verbatim>\<open>range(self.min_connections)\<close> is empty for a negative number.
\<close>

definition ConnectionPool_init ::
  "int \<Rightarrow> int \<Rightarrow> real \<Rightarrow> real \<Rightarrow> real \<Rightarrow> connection_pool option" where
  "ConnectionPool_init min_conns max_conns timeout0 max_age0 now =
     initialize_pool (nat min_conns) now
       \<lparr>min_connections = min_conns, max_connections = max_conns, timeout = timeout0,
        max_age = max_age0, available = [], in_use = [], total_created = 0,
        total_requests = 0, total_hits = 0, total_misses = 0,
        conns = (\<lambda>_. \<lparr>created_at = 0, last_used = 0, conn_in_use = False, connection_closed = False\<rparr>)\<rparr>"

text \<open>
  \<^verbatim>\<open>get_connection\<close> holds \<^verbatim>\<open>self.lock\<close> only around lines 138-140 and around the
  handler of \<^verbatim>\<open>Empty\<close>, so between these parts other callers can run. It is split at
  these boundaries into three parts, each taken as one step.

  \<open>get_connection_wait\<close> is lines 122-135, outside the lock: the request counter,
  \<^verbatim>\<open>Queue.get(timeout=t)\<close> and the expiry check. The queue raises ValueError for a
  negative \<open>t\<close>, returns its oldest element when there is one, and otherwise raises
  \<^verbatim>\<open>Empty\<close> once the wait is over (\<open>Inr None\<close>). After it the caller holds a handle
  that is neither in the queue nor in \<^verbatim>\<open>in_use\<close>.
\<close>

definition get_connection_wait ::
  "real \<Rightarrow> connection_pool \<Rightarrow> (py_error + nat option) \<times> connection_pool" where
  "get_connection_wait now P0 =
     (let P = P0\<lparr>total_requests := total_requests P0 + 1\<rparr> in
      if timeout P < 0 then (Inl ValueError, P)
      else
        (case available P of
           old # rest \<Rightarrow>
             (let P1 = P\<lparr>available := rest\<rparr> in
              if is_expired now (conns P1 old) (max_age P1) then
                (let P2 = P1\<lparr>conns := (conns P1)(old := (conns P1 old)\<lparr>connection_closed := True\<rparr>)\<rparr> in
                 case create_connection now P2 of
                   (conn, P3) \<Rightarrow> (Inr (Some conn), P3\<lparr>total_misses := total_misses P3 + 1\<rparr>))
              else (Inr (Some old), P1\<lparr>total_hits := total_hits P1 + 1\<rparr>))
         | [] \<Rightarrow> (Inr None, P)))"

text \<open>Lines 138-140, under the lock.\<close>

definition mark_in_use :: "nat \<Rightarrow> connection_pool \<Rightarrow> connection_pool" where
  "mark_in_use conn P =
     P\<lparr>conns := (conns P)(conn := (conns P conn)\<lparr>conn_in_use := True\<rparr>),
       in_use := in_use P @ [conn]\<rparr>"

text \<open>The handler of \<^verbatim>\<open>Empty\<close>, lines 147-162, under the lock.\<close>

definition get_connection_exhausted ::
  "real \<Rightarrow> connection_pool \<Rightarrow> (py_error + nat) \<times> connection_pool" where
  "get_connection_exhausted now P =
     (let total_connections = int (length (available P)) + int (length (in_use P)) in
      if total_connections < max_connections P then
        (case create_connection now P of
           (conn, P1) \<Rightarrow>
             (let P2 = mark_in_use conn P1 in
              (Inr conn, P2\<lparr>total_misses := total_misses P2 + 1\<rparr>)))
      else (Inl TimeoutError, P))"

text \<open>
  One whole call with no other caller in between: the body of the \<^verbatim>\<open>try\<close>, or the
  handler when the wait raised \<^verbatim>\<open>Empty\<close>. The result is the raised error or the name
  of the returned handle, with the pool after the call.
\<close>

definition get_connection ::
  "real \<Rightarrow> connection_pool \<Rightarrow> (py_error + nat) \<times> connection_pool" where
  "get_connection now P0 =
     (case get_connection_wait now P0 of
        (Inl e, P) \<Rightarrow> (Inl e, P)
      | (Inr (Some conn), P) \<Rightarrow> (Inr conn, mark_in_use conn P)
      | (Inr None, P) \<Rightarrow> get_connection_exhausted now P)"

text \<open>
  \<^verbatim>\<open>release_connection\<close>: \<^verbatim>\<open>list.remove\<close> drops the first occurrence;
  \<^verbatim>\<open>put_nowait\<close> raises on a full queue and the handler closes the connection.
\<close>

definition release_connection :: "connection_pool \<Rightarrow> nat \<Rightarrow> connection_pool" where
  "release_connection P conn =
     (if conn \<in> set (in_use P) then
        (let P1 = P\<lparr>in_use := remove1 conn (in_use P),
                     conns := (conns P)(conn := (conns P conn)\<lparr>conn_in_use := False\<rparr>)\<rparr> in
         if queue_full P1
         then P1\<lparr>conns := (conns P1)(conn := (conns P1 conn)\<lparr>connection_closed := True\<rparr>)\<rparr>
         else P1\<lparr>available := available P1 @ [conn]\<rparr>)
      else P)"

text \<open>
  \<^verbatim>\<open>PooledConnection.close\<close>: \<^verbatim>\<open>self.pool\<close> is the pool that created the handle.
\<close>

definition PooledConnection_close :: "connection_pool \<Rightarrow> nat \<Rightarrow> connection_pool" where
  "PooledConnection_close pool self = release_connection pool self"

text \<open>
  Several callers on one pool. Besides the pool, the state holds the handles that callers
  have taken from the queue and not yet added to \<^verbatim>\<open>in_use\<close> (they are between lines
  126 and 138), and the number of callers whose wait raised \<^verbatim>\<open>Empty\<close> and whose
  handler has not run yet. An event is one part of \<^verbatim>\<open>get_connection\<close> run by some
  caller, or a \<^verbatim>\<open>release_connection\<close> (the whole body is under the lock) with any
  handle. An event that no caller can run leaves the state as it is. A run is
  \<open>foldl pool_step\<close> over a list of events: every order of the parts of the calls.
\<close>

record pool_system =
  shared :: connection_pool
  taken :: "nat list"
  timed_out :: nat

datatype pool_event = Wait real | Mark nat | Exhausted real | Release nat

fun pool_step :: "pool_system \<Rightarrow> pool_event \<Rightarrow> pool_system" where
  "pool_step S (Wait now) =
     (case get_connection_wait now (shared S) of
        (Inl e, P) \<Rightarrow> S\<lparr>shared := P\<rparr>
      | (Inr (Some conn), P) \<Rightarrow> S\<lparr>shared := P, taken := taken S @ [conn]\<rparr>
      | (Inr None, P) \<Rightarrow> S\<lparr>shared := P, timed_out := timed_out S + 1\<rparr>)"
| "pool_step S (Mark conn) =
     (if conn \<in> set (taken S)
      then S\<lparr>shared := mark_in_use conn (shared S), taken := remove1 conn (taken S)\<rparr>
      else S)"
| "pool_step S (Exhausted now) =
     (if 0 < timed_out S
      then S\<lparr>shared := snd (get_connection_exhausted now (shared S)),
             timed_out := timed_out S - 1\<rparr>
      else S)"
| "pool_step S (Release conn) = S\<lparr>shared := release_connection (shared S) conn\<rparr>"

definition pool_start :: "connection_pool \<Rightarrow> pool_system" where
  "pool_start P = \<lparr>shared = P, taken = [], timed_out = 0\<rparr>"

text \<open>\<^verbatim>\<open>self.available.qsize() + len(self.in_use)\<close>, as \<^verbatim>\<open>get_stats\<close> reports it.\<close>

definition total_connections :: "connection_pool \<Rightarrow> int" where
  "total_connections P = int (length (available P)) + int (length (in_use P))"

text \<open>
  The handles a pool tracks are objects it created, each tracked once; with several
  callers this includes the handles taken from the queue and not yet in \<^verbatim>\<open>in_use\<close>.
\<close>

definition pool_wf :: "connection_pool \<Rightarrow> bool" where
  "pool_wf P = (distinct (available P @ in_use P) \<and>
                list_all (\<lambda>r. r < total_created P) (available P @ in_use P))"

definition system_wf :: "pool_system \<Rightarrow> bool" where
  "system_wf S = (distinct (available (shared S) @ taken S @ in_use (shared S)) \<and>
                  list_all (\<lambda>r. r < total_created (shared S))
                    (available (shared S) @ taken S @ in_use (shared S)))"

section \<open>QueryAnalyzer\<close>

text \<open>
  One record of \<^verbatim>\<open>query_history\<close> (the dict \<^verbatim>\<open>analysis\<close>; its keys
  \<^verbatim>\<open>'query'\<close> and \<^verbatim>\<open>'params'\<close> are the first two fields).
\<close>

record ('p, 'r) analysis =
  query_text :: string
  query_params :: "'p list option"
  execution_time :: real
  rows_returned :: nat
  is_slow :: bool
  query_plan :: "'r list"
  timestamp :: real

record ('p, 'r) query_analyzer =
  slow_query_threshold :: real
  query_history :: "('p, 'r) analysis list"
  slow_queries :: "('p, 'r) analysis list"

definition QueryAnalyzer_init :: "real \<Rightarrow> ('p, 'r) query_analyzer" where
  "QueryAnalyzer_init threshold =
     \<lparr>slow_query_threshold = threshold, query_history = [], slow_queries = []\<rparr>"

text \<open>
  \<^verbatim>\<open>analyze_query\<close>. The argument \<open>connection\<close> gives, for a statement and its
  parameters, what \<^verbatim>\<open>execute\<close> followed by \<^verbatim>\<open>fetchall\<close> yields: the rows or the
  raised error. \<open>start_time\<close>, \<open>end_time\<close> and \<open>stamp\<close> are the three clock
  readings of the call. A failure of the query itself propagates before anything is
  recorded; a failure of the \<^verbatim>\<open>EXPLAIN\<close> statement gives an empty plan.
\<close>

definition analyze_query ::
  "('p, 'r) query_analyzer \<Rightarrow> (string \<Rightarrow> 'p list \<Rightarrow> py_error + 'r list) \<Rightarrow> real \<Rightarrow> real \<Rightarrow> real
     \<Rightarrow> string \<Rightarrow> 'p list option
     \<Rightarrow> (py_error + 'r list \<times> ('p, 'r) analysis) \<times> ('p, 'r) query_analyzer" where
  "analyze_query A connection start_time end_time stamp query params =
     (let ps = (case params of None \<Rightarrow> [] | Some l \<Rightarrow> l) in
      case connection query ps of
        Inl e \<Rightarrow> (Inl e, A)
      | Inr results \<Rightarrow>
          (let elapsed = end_time - start_time;
               plan = (case connection (''EXPLAIN QUERY PLAN '' @ query) ps of
                         Inl _ \<Rightarrow> [] | Inr rows \<Rightarrow> rows);
               record = \<lparr>query_text = query, query_params = params,
                         execution_time = elapsed, rows_returned = length results,
                         is_slow = (elapsed > slow_query_threshold A),
                         query_plan = plan, timestamp = stamp\<rparr>;
               A1 = A\<lparr>query_history := query_history A @ [record]\<rparr>;
               A2 = (if is_slow record
                     then A1\<lparr>slow_queries := slow_queries A1 @ [record]\<rparr> else A1)
           in (Inr (results, record), A2)))"

text \<open>
  \<^verbatim>\<open>get_query_stats\<close> returns a dict, here the list of its items in the order
  written. A value is a number or one of the two formatted strings: \<open>Percent x\<close> is
  \<^verbatim>\<open>f"{x:.2f}%"\<close> and \<open>Seconds x\<close> is \<^verbatim>\<open>f"{x:.4f}s"\<close>.
\<close>

datatype stat_value = Number nat | Percent real | Seconds real

definition get_query_stats :: "('p, 'r) query_analyzer \<Rightarrow> (string \<times> stat_value) list" where
  "get_query_stats A =
     (if query_history A = [] then
        [(''total_queries'', Number 0),
         (''slow_queries'', Number 0),
         (''avg_execution_time'', Number 0),
         (''min_execution_time'', Number 0),
         (''max_execution_time'', Number 0)]
      else
        (let execution_times = map execution_time (query_history A) in
         [(''total_queries'', Number (length (query_history A))),
          (''slow_queries'', Number (length (slow_queries A))),
          (''slow_query_percentage'',
             Percent (real (length (slow_queries A)) / real (length (query_history A)) * 100)),
          (''avg_execution_time'',
             Seconds (sum_list execution_times / real (length execution_times))),
          (''min_execution_time'', Seconds (fold min (tl execution_times) (hd execution_times))),
          (''max_execution_time'', Seconds (fold max (tl execution_times) (hd execution_times)))]))"

text \<open>A sequence of \<^verbatim>\<open>set\<close> calls: (clock reading, query, params, result) each.\<close>

fun QueryCache_set_all ::
  "(string \<Rightarrow> 'p list \<Rightarrow> string) \<Rightarrow> 'v query_cache \<Rightarrow> (real \<times> string \<times> 'p list option \<times> 'v) list
     \<Rightarrow> py_error + 'v query_cache" where
  "QueryCache_set_all md5_json C [] = Inr C"
| "QueryCache_set_all md5_json C ((now, query, params, result) # rest) =
     (case QueryCache_set md5_json now C query params result of
        Inl e \<Rightarrow> Inl e
      | Inr C1 \<Rightarrow> QueryCache_set_all md5_json C1 rest)"

section \<open>Facts about dicts as association lists\<close>

lemma length_delete_present:
  "distinct (map fst al) \<Longrightarrow> k \<in> fst ` set al \<Longrightarrow> Suc (length (AList.delete k al)) = length al"
proof (induction al)
  case Nil
  then show ?case by simp
next
  case (Cons a al)
  show ?case
  proof (cases "fst a = k")
    case True
    with Cons.prems have "k \<notin> fst ` set al" by auto
    then have "AList.delete k al = al" by (simp add: delete_id)
    with True show ?thesis by (cases a) simp
  next
    case False
    with Cons show ?thesis by (cases a) auto
  qed
qed

lemma oldest_key_None: "oldest_key c = None \<longleftrightarrow> c = []"
  by (auto simp: oldest_key_def split: list.splits prod.splits)

lemma oldest_scan_first:
  "foldl (\<lambda>(bk, bt) (k, (t, _)). if t < bt then (k, t) else (bk, bt)) (k0, t0) rest = (k1, t1)
   \<Longrightarrow> ((k1, t1) = (k0, t0) \<and> (\<forall>(k, (t, w)) \<in> set rest. t0 \<le> (t::real)))
       \<or> (\<exists>pre v post. rest = pre @ (k1, (t1, v)) # post \<and> t1 < t0 \<and>
             (\<forall>(k, (t, w)) \<in> set pre. t1 < t) \<and> (\<forall>(k, (t, w)) \<in> set post. t1 \<le> t))"
proof (induction rest arbitrary: k0 t0)
  case Nil
  then show ?case by simp
next
  case (Cons e rest)
  obtain k t v where e: "e = (k, (t, v))" by (cases e) auto
  let ?step = "\<lambda>(bk, bt) (k, (t, _)). if t < bt then (k, t) else (bk, bt)"
  show ?case
  proof (cases "t < t0")
    case True
    with Cons.prems e have f: "foldl ?step (k, t) rest = (k1, t1)" by simp
    from Cons.IH [OF f] show ?thesis
    proof
      assume a: "(k1, t1) = (k, t) \<and> (\<forall>(k', (t', w)) \<in> set rest. t \<le> t')"
      then have "(\<forall>(k', (t', w)) \<in> set rest. t1 \<le> t')" by auto
      with a True e have "e # rest = [] @ (k1, (t1, v)) # rest \<and> t1 < t0 \<and>
             (\<forall>(k, (t, w)) \<in> set []. t1 < t) \<and> (\<forall>(k, (t, w)) \<in> set rest. t1 \<le> t)"
        by simp
      then show ?thesis by blast
    next
      assume "\<exists>pre v post. rest = pre @ (k1, (t1, v)) # post \<and> t1 < t \<and>
             (\<forall>(k', (t', w)) \<in> set pre. t1 < t') \<and> (\<forall>(k', (t', w)) \<in> set post. t1 \<le> t')"
      then obtain pre v' post where r: "rest = pre @ (k1, (t1, v')) # post" and lt: "t1 < t"
        and p: "\<forall>(k', (t', w)) \<in> set pre. t1 < t'" and q: "\<forall>(k', (t', w)) \<in> set post. t1 \<le> t'"
        by blast
      from r lt p q True e have "e # rest = (e # pre) @ (k1, (t1, v')) # post \<and> t1 < t0 \<and>
             (\<forall>(k, (t, w)) \<in> set (e # pre). t1 < t) \<and> (\<forall>(k, (t, w)) \<in> set post. t1 \<le> t)"
        by simp
      then show ?thesis by blast
    qed
  next
    case False
    with Cons.prems e have f: "foldl ?step (k0, t0) rest = (k1, t1)" by simp
    from Cons.IH [OF f] show ?thesis
    proof
      assume "(k1, t1) = (k0, t0) \<and> (\<forall>(k, (t, w)) \<in> set rest. t0 \<le> t)"
      with False e show ?thesis by simp
    next
      assume "\<exists>pre v post. rest = pre @ (k1, (t1, v)) # post \<and> t1 < t0 \<and>
             (\<forall>(k, (t, w)) \<in> set pre. t1 < t) \<and> (\<forall>(k, (t, w)) \<in> set post. t1 \<le> t)"
      then obtain pre v' post where r: "rest = pre @ (k1, (t1, v')) # post" and lt: "t1 < t0"
        and p: "\<forall>(k, (t, w)) \<in> set pre. t1 < t" and q: "\<forall>(k, (t, w)) \<in> set post. t1 \<le> t"
        by blast
      from r lt p q False e have "e # rest = (e # pre) @ (k1, (t1, v')) # post \<and> t1 < t0 \<and>
             (\<forall>(k, (t, w)) \<in> set (e # pre). t1 < t) \<and> (\<forall>(k, (t, w)) \<in> set post. t1 \<le> t)"
        by simp
      then show ?thesis by blast
    qed
  qed
qed

lemma oldest_key_first:
  assumes "oldest_key c = Some k1"
  shows "\<exists>pre t1 v1 post. c = pre @ (k1, (t1, v1)) # post \<and>
           (\<forall>(k, (t, w)) \<in> set pre. t1 < t) \<and> (\<forall>(k, (t, w)) \<in> set post. t1 \<le> t)"
proof -
  let ?step = "\<lambda>(bk, bt) (k, (t, _)). if t < bt then (k, t) else (bk, bt)"
  from assms obtain k0 t0 v0 rest where c: "c = (k0, (t0, v0)) # rest"
    by (cases c) (auto simp: oldest_key_def)
  obtain kb tb where f: "foldl ?step (k0, t0) rest = (kb, tb)"
    by (cases "foldl ?step (k0, t0) rest") auto
  with assms c have k1: "k1 = kb" by (simp add: oldest_key_def)
  from oldest_scan_first [OF f] show ?thesis
  proof
    assume "(kb, tb) = (k0, t0) \<and> (\<forall>(k, (t, w)) \<in> set rest. t0 \<le> t)"
    with c k1 have "c = [] @ (k1, (t0, v0)) # rest \<and>
           (\<forall>(k, (t, w)) \<in> set []. t0 < t) \<and> (\<forall>(k, (t, w)) \<in> set rest. t0 \<le> t)"
      by simp
    then show ?thesis by blast
  next
    assume "\<exists>pre v post. rest = pre @ (kb, (tb, v)) # post \<and> tb < t0 \<and>
             (\<forall>(k, (t, w)) \<in> set pre. tb < t) \<and> (\<forall>(k, (t, w)) \<in> set post. tb \<le> t)"
    then obtain pre v' post where r: "rest = pre @ (kb, (tb, v')) # post" and lt: "tb < t0"
        and p: "\<forall>(k, (t, w)) \<in> set pre. tb < t" and q: "\<forall>(k, (t, w)) \<in> set post. tb \<le> t"
      by blast
    with c k1 have "c = ((k0, (t0, v0)) # pre) @ (k1, (tb, v')) # post \<and>
           (\<forall>(k, (t, w)) \<in> set ((k0, (t0, v0)) # pre). tb < t) \<and>
           (\<forall>(k, (t, w)) \<in> set post. tb \<le> t)"
      by simp
    then show ?thesis by blast
  qed
qed

lemma oldest_key_Some:
  assumes "oldest_key c = Some k1"
  shows "\<exists>t1 v1. (k1, (t1, v1)) \<in> set c \<and> (\<forall>(k, (t, v)) \<in> set c. t1 \<le> t)"
proof -
  from oldest_key_first [OF assms] obtain pre t1 v1 post where
    c: "c = pre @ (k1, (t1, v1)) # post" and
    p: "\<forall>(k, (t, w)) \<in> set pre. t1 < t" and q: "\<forall>(k, (t, w)) \<in> set post. t1 \<le> t"
    by blast
  from p have "\<forall>(k, (t, w)) \<in> set pre. t1 \<le> t" by fastforce
  with c q have "(k1, (t1, v1)) \<in> set c \<and> (\<forall>(k, (t, v)) \<in> set c. t1 \<le> t)" by auto
  then show ?thesis by blast
qed

lemma delete_split:
  "distinct (map fst (pre @ (k, e) # post)) \<Longrightarrow>
   AList.delete k (pre @ (k, e) # post) = pre @ post"
  by (induction pre) (auto simp: delete_id)

section \<open>QueryCache: eviction\<close>

lemma set_below_capacity:
  "int (length (cache C)) < max_size C \<Longrightarrow>
   QueryCache_set H now C q p v =
     Inr (C\<lparr>cache := AList.update (generate_key H q p) (now, v) (cache C)\<rparr>)"
  by (simp add: QueryCache_set_def)

lemma set_at_capacity:
  assumes "max_size C \<le> int (length (cache C))" and "cache C \<noteq> []"
  shows "\<exists>oldest t0 v0.
           (oldest, (t0, v0)) \<in> set (cache C) \<and> (\<forall>(k, (t, w)) \<in> set (cache C). t0 \<le> t) \<and>
           QueryCache_set H now C q p v =
             Inr (C\<lparr>cache := AList.update (generate_key H q p) (now, v)
                                 (AList.delete oldest (cache C)),
                    evictions := evictions C + 1\<rparr>)"
proof -
  from assms(2) obtain oldest where o: "oldest_key (cache C) = Some oldest"
    using oldest_key_None [of "cache C"] by (cases "oldest_key (cache C)") auto
  from oldest_key_Some [OF o] obtain t0 v0 where
    "(oldest, (t0, v0)) \<in> set (cache C)" "\<forall>(k, (t, w)) \<in> set (cache C). t0 \<le> t" by blast
  with o assms(1) show ?thesis by (auto simp: QueryCache_set_def)
qed

lemma length_update:
  "length (AList.update k v al) = (if k \<in> fst ` set al then length al else Suc (length al))"
  by (induction al) auto

lemma keys_update: "fst ` set (AList.update k v al) = insert k (fst ` set al)"
  using dom_update [of k v al] by simp

lemma keys_delete: "fst ` set (AList.delete k al) = fst ` set al - {k}"
  by (induction al) auto

lemma set_new_key_step:
  assumes m: "1 \<le> max_size C" and d: "distinct (map fst (cache C))"
    and le: "int (length (cache C)) \<le> max_size C"
    and new: "generate_key H q p \<notin> fst ` set (cache C)"
  shows "\<exists>C1. QueryCache_set H now C q p v = Inr C1 \<and> max_size C1 = max_size C \<and>
           distinct (map fst (cache C1)) \<and>
           fst ` set (cache C1) \<subseteq> insert (generate_key H q p) (fst ` set (cache C)) \<and>
           (if int (length (cache C)) < max_size C
            then evictions C1 = evictions C \<and> length (cache C1) = Suc (length (cache C))
            else evictions C1 = Suc (evictions C) \<and> length (cache C1) = length (cache C))"
proof (cases "int (length (cache C)) < max_size C")
  case True
  with d new show ?thesis
    by (simp add: set_below_capacity keys_update length_update distinct_update)
next
  case False
  with le m have full: "max_size C \<le> int (length (cache C))" and ne: "cache C \<noteq> []" by auto
  from set_at_capacity [OF full ne, of H now q p v] obtain oldest t0 v0 where
    mem: "(oldest, (t0, v0)) \<in> set (cache C)" and
    eq: "QueryCache_set H now C q p v =
             Inr (C\<lparr>cache := AList.update (generate_key H q p) (now, v)
                                 (AList.delete oldest (cache C)),
                    evictions := evictions C + 1\<rparr>)" by blast
  from mem have "oldest \<in> fst ` set (cache C)" by force
  from length_delete_present [OF d this]
  have len: "Suc (length (AList.delete oldest (cache C))) = length (cache C)" .
  from new have "generate_key H q p \<notin> fst ` set (AList.delete oldest (cache C))"
    by (simp add: keys_delete)
  with len have "length (AList.update (generate_key H q p) (now, v) (AList.delete oldest (cache C)))
      = length (cache C)" by (simp add: length_update)
  with False eq d show ?thesis
    by (auto simp: keys_update keys_delete distinct_update distinct_delete)
qed


lemma length_delete_less:
  "k \<in> fst ` set al \<Longrightarrow> length (AList.delete k al) < length al"
proof -
  assume "k \<in> fst ` set al"
  then obtain v where "(k, v) \<in> set al" by auto
  then have "length (filter (\<lambda>(k', _). k \<noteq> k') al) < length al"
    by (intro length_filter_less [of "(k, v)"]) simp_all
  then show ?thesis by (simp add: AList.delete_eq)
qed

lemma set_keeps_bound:
  assumes le: "int (length (cache C)) \<le> max_size C"
    and ok: "QueryCache_set H now C q p v = Inr C1"
  shows "int (length (cache C1)) \<le> max_size C1 \<and> max_size C1 = max_size C"
proof (cases "int (length (cache C)) < max_size C")
  case True
  with ok have "C1 = C\<lparr>cache := AList.update (generate_key H q p) (now, v) (cache C)\<rparr>"
    by (simp add: set_below_capacity)
  with True show ?thesis by (simp add: length_update)
next
  case False
  then have full: "max_size C \<le> int (length (cache C))" by simp
  from ok full have ne: "cache C \<noteq> []"
    by (auto simp: QueryCache_set_def oldest_key_def)
  from set_at_capacity [OF full ne, of H now q p v] ok obtain oldest t0 v0 where
    mem: "(oldest, (t0, v0)) \<in> set (cache C)" and
    eq: "C1 = C\<lparr>cache := AList.update (generate_key H q p) (now, v)
                                 (AList.delete oldest (cache C)),
                    evictions := evictions C + 1\<rparr>" by auto
  from mem have "oldest \<in> fst ` set (cache C)" by force
  from length_delete_less [OF this] eq le show ?thesis
    by (simp add: length_update)
qed

lemma disjoint_step: "A \<inter> K = {} \<Longrightarrow> k \<notin> K \<Longrightarrow> A1 \<subseteq> insert k A \<Longrightarrow> A1 \<inter> K = {}"
  by blast

lemma set_all_new_keys:
  assumes "1 \<le> max_size C" and "distinct (map fst (cache C))"
    and "int (length (cache C)) \<le> max_size C"
    and "distinct (map (\<lambda>(now, q, p, v). generate_key H q p) xs)"
    and "fst ` set (cache C) \<inter> (\<lambda>(now, q, p, v). generate_key H q p) ` set xs = {}"
  shows "\<exists>C'. QueryCache_set_all H C xs = Inr C' \<and> max_size C' = max_size C \<and>
           evictions C' = evictions C + (length (cache C) + length xs - nat (max_size C)) \<and>
           length (cache C') = min (length (cache C) + length xs) (nat (max_size C))"
  using assms
proof (induction xs arbitrary: C)
  case Nil
  then show ?case by auto
next
  case (Cons x xs)
  obtain now q p v where x: "x = (now, q, p, v)" by (cases x) auto
  from Cons.prems x have new: "generate_key H q p \<notin> fst ` set (cache C)" by auto
  from set_new_key_step [OF Cons.prems(1,2,3) new, of now v] obtain C1 where
    s: "QueryCache_set H now C q p v = Inr C1" and m1: "max_size C1 = max_size C" and
    d1: "distinct (map fst (cache C1))" and
    k1: "fst ` set (cache C1) \<subseteq> insert (generate_key H q p) (fst ` set (cache C))" and
    c1: "if int (length (cache C)) < max_size C
            then evictions C1 = evictions C \<and> length (cache C1) = Suc (length (cache C))
            else evictions C1 = Suc (evictions C) \<and> length (cache C1) = length (cache C)"
    by blast
  from c1 Cons.prems(3) m1 have le1: "int (length (cache C1)) \<le> max_size C1"
    by (auto split: if_splits)
  from Cons.prems(4) x have dx: "distinct (map (\<lambda>(now, q, p, v). generate_key H q p) xs)"
    and nx: "generate_key H q p \<notin> (\<lambda>(now, q, p, v). generate_key H q p) ` set xs" by auto
  define K where "K = (\<lambda>(now, q, p, v). generate_key H q p) ` set xs"
  from Cons.prems(5) have "fst ` set (cache C) \<inter> K = {}"
    unfolding K_def by auto
  moreover from nx have "generate_key H q p \<notin> K" unfolding K_def .
  ultimately have "fst ` set (cache C1) \<inter> K = {}"
    using k1 by (rule disjoint_step)
  then have disj: "fst ` set (cache C1) \<inter> (\<lambda>(now, q, p, v). generate_key H q p) ` set xs = {}"
    unfolding K_def .
  from Cons.prems(1) m1 have "1 \<le> max_size C1" by simp
  from Cons.IH [OF this d1 le1 dx disj] obtain C' where
    r: "QueryCache_set_all H C1 xs = Inr C'" and m': "max_size C' = max_size C1" and
    e': "evictions C' = evictions C1 + (length (cache C1) + length xs - nat (max_size C1))" and
    l': "length (cache C') = min (length (cache C1) + length xs) (nat (max_size C1))" by blast
  from s r x have "QueryCache_set_all H C (x # xs) = Inr C'" by simp
  moreover from m' m1 have "max_size C' = max_size C" by simp
  moreover from e' c1 m1 Cons.prems(3)
  have "evictions C' = evictions C + (length (cache C) + length (x # xs) - nat (max_size C))"
    by (auto split: if_splits)
  moreover from l' c1 m1 Cons.prems(3)
  have "length (cache C') = min (length (cache C) + length (x # xs)) (nat (max_size C))"
    by (auto split: if_splits)
  ultimately show ?case by blast
qed

text \<open>
  Claim C2, as the code has it. A \<^verbatim>\<open>set\<close> on a non-empty cache that holds at least
  \<open>max_size\<close> entries succeeds and evicts exactly one entry before the insert: the dict
  is \<open>pre @ entry # post\<close> before and \<open>pre @ post\<close> after the eviction, where the
  timestamp of the evicted entry is below every timestamp in \<open>pre\<close> and not above any
  in \<open>post\<close> (the smallest one, the first in insertion order on a tie); \<open>evictions\<close>
  grows by one, and the new entry is then stored. Inserting any number of distinct keys
  into a fresh cache with \<open>max_size \<ge> 1\<close> succeeds and counts one eviction per insert
  past capacity (\<open>length xs - max_size\<close> in all, so exactly one for \<open>max_size + 1\<close>
  keys), leaving \<open>min (length xs) max_size\<close> entries. A \<^verbatim>\<open>set\<close> that returns never
  takes the size above \<open>max_size\<close>. (On an empty cache with \<open>max_size \<le> 0\<close> the call
  raises instead: see the counterexample.)
\<close>

theorem set_evicts_smallest_timestamp:
  "(distinct (map fst (cache C)) \<and> max_size C \<le> int (length (cache C)) \<and> cache C \<noteq> [] \<longrightarrow>
      (\<exists>pre oldest t0 v0 post.
          cache C = pre @ (oldest, (t0, v0)) # post \<and>
          (\<forall>(k, (t, w)) \<in> set pre. t0 < t) \<and> (\<forall>(k, (t, w)) \<in> set post. t0 \<le> t) \<and>
          QueryCache_set H now C q p v =
            Inr (C\<lparr>cache := AList.update (generate_key H q p) (now, v) (pre @ post),
                   evictions := evictions C + 1\<rparr>)))
   \<and> (1 \<le> m \<and> distinct (map (\<lambda>(now, q, p, v). generate_key H q p) xs) \<longrightarrow>
        (\<exists>C'. QueryCache_set_all H (QueryCache_init ttl0 m) xs = Inr C' \<and>
              evictions C' = length xs - nat m \<and>
              length (cache C') = min (length xs) (nat m)))
   \<and> (int (length (cache C)) \<le> max_size C \<and> QueryCache_set H now C q p v = Inr C1 \<longrightarrow>
        int (length (cache C1)) \<le> max_size C1)"
proof (intro conjI impI)
  assume a: "distinct (map fst (cache C)) \<and> max_size C \<le> int (length (cache C)) \<and> cache C \<noteq> []"
  then have d: "distinct (map fst (cache C))" and full: "max_size C \<le> int (length (cache C))"
    and ne: "cache C \<noteq> []" by auto
  from ne obtain oldest where o: "oldest_key (cache C) = Some oldest"
    using oldest_key_None [of "cache C"] by (cases "oldest_key (cache C)") auto
  from oldest_key_first [OF o] obtain pre t0 v0 post where
    c: "cache C = pre @ (oldest, (t0, v0)) # post" and
    lt: "\<forall>(k, (t, w)) \<in> set pre. t0 < t" and le: "\<forall>(k, (t, w)) \<in> set post. t0 \<le> t"
    by blast
  from d c have "AList.delete oldest (cache C) = pre @ post"
    by (simp add: delete_split)
  with o full have "QueryCache_set H now C q p v =
            Inr (C\<lparr>cache := AList.update (generate_key H q p) (now, v) (pre @ post),
                   evictions := evictions C + 1\<rparr>)"
    by (simp add: QueryCache_set_def)
  with c lt le show "\<exists>pre oldest t0 v0 post.
          cache C = pre @ (oldest, (t0, v0)) # post \<and>
          (\<forall>(k, (t, w)) \<in> set pre. t0 < t) \<and> (\<forall>(k, (t, w)) \<in> set post. t0 \<le> t) \<and>
          QueryCache_set H now C q p v =
            Inr (C\<lparr>cache := AList.update (generate_key H q p) (now, v) (pre @ post),
                   evictions := evictions C + 1\<rparr>)"
    by blast
next
  assume a: "1 \<le> m \<and> distinct (map (\<lambda>(now, q, p, v). generate_key H q p) xs)"
  from a set_all_new_keys [of "QueryCache_init ttl0 m" H xs]
  show "\<exists>C'. QueryCache_set_all H (QueryCache_init ttl0 m) xs = Inr C' \<and>
              evictions C' = length xs - nat m \<and>
              length (cache C') = min (length xs) (nat m)"
    by (auto simp: QueryCache_init_def)
next
  assume "int (length (cache C)) \<le> max_size C \<and> QueryCache_set H now C q p v = Inr C1"
  then show "int (length (cache C1)) \<le> max_size C1"
    using set_keeps_bound [of C H now q p v C1] by simp
qed

text \<open>
  At a full cache of three entries where \<open>b\<close> and \<open>c\<close> share the smallest timestamp,
  the earlier inserted \<open>b\<close> is evicted and the other two stay in their order; four
  distinct keys into a fresh cache of \<open>max_size = 2\<close> count two evictions and leave the
  two newest.
\<close>

theorem set_evicts_smallest_timestamp_witness:
  "distinct (map fst [(''a'', (2::real, 10::nat)), (''b'', (1, 20)), (''c'', (1, 30))]) \<and>
   (3::int) \<le> int (length [(''a'', (2::real, 10::nat)), (''b'', (1, 20)), (''c'', (1, 30))]) \<and>
   QueryCache_set (\<lambda>q (ps::nat list). q) 5
       \<lparr>ttl = 300, max_size = 3,
        cache = [(''a'', (2, 10::nat)), (''b'', (1, 20)), (''c'', (1, 30))],
        hits = 0, misses = 0, evictions = 0\<rparr> ''d'' None 40
     = Inr \<lparr>ttl = 300, max_size = 3,
        cache = [(''a'', (2, 10::nat)), (''c'', (1, 30)), (''d'', (5, 40))],
        hits = 0, misses = 0, evictions = 1\<rparr> \<and>
   (1::int) \<le> 2 \<and>
   distinct (map (\<lambda>(now, q, p, v). generate_key (\<lambda>q (ps::nat list). q) q p)
               [(1::real, ''a'', None, 10::nat), (2, ''b'', None, 20), (3, ''c'', None, 30), (4, ''d'', None, 40)]) \<and>
   QueryCache_set_all (\<lambda>q (ps::nat list). q) (QueryCache_init 300 2)
       [(1::real, ''a'', None, 10::nat), (2, ''b'', None, 20), (3, ''c'', None, 30), (4, ''d'', None, 40)]
     = Inr \<lparr>ttl = 300, max_size = 2, cache = [(''c'', (3, 30)), (''d'', (4, 40))],
            hits = 0, misses = 0, evictions = 2\<rparr>"
  using set_evicts_smallest_timestamp
    [where C = "\<lparr>ttl = 300, max_size = 3,
        cache = [(''a'', (2, 10::nat)), (''b'', (1, 20)), (''c'', (1, 30))],
        hits = 0, misses = 0, evictions = 0\<rparr>"
       and H = "\<lambda>q (ps::nat list). q" and now = 5 and q = "''d''" and p = None and v = 40
       and m = 2 and xs = "[(1::real, ''a'', None, 10::nat), (2, ''b'', None, 20), (3, ''c'', None, 30), (4, ''d'', None, 40)]"
       and ?ttl0.0 = 300
       and ?C1.0 = "\<lparr>ttl = 300, max_size = 3,
        cache = [(''a'', (2, 10::nat)), (''c'', (1, 30)), (''d'', (5, 40))],
        hits = 0, misses = 0, evictions = 1\<rparr>"]
  by (simp add: QueryCache_set_def QueryCache_init_def oldest_key_def generate_key_def
        strip_def lower_def isspace_def)

text \<open>
  The claim as written fails on a cache created with \<open>max_size = 0\<close>: the entry count
  0 is at least \<open>max_size\<close>, yet nothing is evicted and nothing is stored, because
  \<^verbatim>\<open>min\<close> over the empty dict raises ValueError.
\<close>

theorem set_on_empty_cache_counterexample:
  "max_size (QueryCache_init 300 0 :: nat query_cache)
     \<le> int (length (cache (QueryCache_init 300 0 :: nat query_cache))) \<and>
   QueryCache_set (\<lambda>q (ps::nat list). q) 1 (QueryCache_init 300 0) ''select 1'' None (7::nat)
     = Inl ValueError"
  by (simp add: QueryCache_set_def QueryCache_init_def oldest_key_def)

section \<open>QueryCache: reads, overwrites, invalidation\<close>

lemma set_stores_entry:
  "QueryCache_set H t C q p v = Inr C1 \<Longrightarrow>
   map_of (cache C1) (generate_key H q p) = Some (t, v) \<and> ttl C1 = ttl C"
  by (auto simp: QueryCache_set_def Let_def update_conv' split: if_splits option.splits)

lemma set_keeps_distinct:
  "QueryCache_set H t C q p v = Inr C1 \<Longrightarrow> distinct (map fst (cache C)) \<Longrightarrow>
   distinct (map fst (cache C1))"
  by (auto simp: QueryCache_set_def Let_def distinct_update distinct_delete
           split: if_splits option.splits)

lemma get_fresh:
  "map_of (cache D) (generate_key H q p) = Some (t, v) \<Longrightarrow> now - t < ttl D \<Longrightarrow>
   QueryCache_get H now D q p = (Some v, D\<lparr>hits := hits D + 1\<rparr>)"
  by (simp add: QueryCache_get_def)

lemma get_stale:
  "map_of (cache D) (generate_key H q p) = Some (t, v) \<Longrightarrow> ttl D \<le> now - t \<Longrightarrow>
   QueryCache_get H now D q p =
     (None, D\<lparr>cache := AList.delete (generate_key H q p) (cache D), misses := misses D + 1\<rparr>)"
  by (simp add: QueryCache_get_def)

lemma get_absent:
  "generate_key H q p \<notin> fst ` set (cache E) \<Longrightarrow>
   QueryCache_get H now E q p = (None, E\<lparr>misses := misses E + 1\<rparr>)"
proof -
  assume "generate_key H q p \<notin> fst ` set (cache E)"
  then have "map_of (cache E) (generate_key H q p) = None"
    by (simp add: map_of_eq_None_iff)
  then show ?thesis by (simp add: QueryCache_get_def)
qed

lemma set_returns:
  assumes "cache C \<noteq> [] \<or> 0 < max_size C"
  shows "\<exists>C1. QueryCache_set H t C q p v = Inr C1"
proof (cases "max_size C \<le> int (length (cache C))")
  case True
  with assms have "cache C \<noteq> []" by auto
  from set_at_capacity [OF True this, of H t q p v] show ?thesis by blast
next
  case False
  then show ?thesis by (simp add: set_below_capacity)
qed

lemma set_raises:
  "cache C = [] \<Longrightarrow> max_size C \<le> 0 \<Longrightarrow> QueryCache_set H t C q p v = Inl ValueError"
  by (simp add: QueryCache_set_def oldest_key_def)

text \<open>
  Claim C3. On a cache that is not empty or has a positive \<open>max_size\<close> (otherwise
  \<^verbatim>\<open>set\<close> raises, lemma \<open>set_raises\<close>), \<^verbatim>\<open>set(q, p, v)\<close> at clock reading \<open>t\<close>
  returns, and in the cache it leaves a \<^verbatim>\<open>get(q, p)\<close> at a reading \<open>now\<close> with
  \<open>now - t < ttl\<close> returns \<open>v\<close> and only adds one to \<open>hits\<close>, while with
  \<open>now - t \<ge> ttl\<close> it returns \<^verbatim>\<open>None\<close>, deletes the entry (the key is gone and
  \<^verbatim>\<open>cache_size\<close> of the stats drops by one) and adds one to \<open>misses\<close>. The same holds
  of \<^verbatim>\<open>get\<close> in any cache, as long as the entry \<open>(t, v)\<close> is stored under the key of
  \<open>(q, p)\<close>, so also after other calls in between. A \<^verbatim>\<open>get\<close> on a key that is not in
  the cache returns \<^verbatim>\<open>None\<close> and only adds one to \<open>misses\<close>.
\<close>

theorem set_then_get:
  "((cache C \<noteq> [] \<or> 0 < max_size C) \<and> distinct (map fst (cache C)) \<longrightarrow>
      (\<exists>C2. QueryCache_set H t C q p v = Inr C2 \<and>
         map_of (cache C2) (generate_key H q p) = Some (t, v) \<and> ttl C2 = ttl C \<and>
         distinct (map fst (cache C2)) \<and>
         (now1 - t < ttl C \<longrightarrow>
            QueryCache_get H now1 C2 q p = (Some v, C2\<lparr>hits := hits C2 + 1\<rparr>)) \<and>
         (ttl C \<le> now2 - t \<longrightarrow>
            QueryCache_get H now2 C2 q p =
              (None, C2\<lparr>cache := AList.delete (generate_key H q p) (cache C2),
                        misses := misses C2 + 1\<rparr>) \<and>
            generate_key H q p \<notin> fst ` set (cache (snd (QueryCache_get H now2 C2 q p))) \<and>
            Suc (cache_size (QueryCache_get_stats (snd (QueryCache_get H now2 C2 q p))))
              = cache_size (QueryCache_get_stats C2))))
   \<and> (QueryCache_set H t C q p v = Inr C1 \<longrightarrow>
      map_of (cache C1) (generate_key H q p) = Some (t, v) \<and> ttl C1 = ttl C \<and>
      (distinct (map fst (cache C)) \<longrightarrow> distinct (map fst (cache C1))))
   \<and> (map_of (cache D) (generate_key H q p) = Some (t, v) \<and> now1 - t < ttl D \<longrightarrow>
        QueryCache_get H now1 D q p = (Some v, D\<lparr>hits := hits D + 1\<rparr>))
   \<and> (distinct (map fst (cache D)) \<and> map_of (cache D) (generate_key H q p) = Some (t, v) \<and>
        ttl D \<le> now2 - t \<longrightarrow>
        QueryCache_get H now2 D q p =
          (None, D\<lparr>cache := AList.delete (generate_key H q p) (cache D),
                    misses := misses D + 1\<rparr>) \<and>
        generate_key H q p \<notin> fst ` set (cache (snd (QueryCache_get H now2 D q p))) \<and>
        Suc (cache_size (QueryCache_get_stats (snd (QueryCache_get H now2 D q p))))
          = cache_size (QueryCache_get_stats D))
   \<and> (generate_key H q' p' \<notin> fst ` set (cache E) \<longrightarrow>
        QueryCache_get H now3 E q' p' = (None, E\<lparr>misses := misses E + 1\<rparr>))"
proof -
  have stale: "QueryCache_get H now D q p =
          (None, D\<lparr>cache := AList.delete (generate_key H q p) (cache D),
                    misses := misses D + 1\<rparr>) \<and>
        generate_key H q p \<notin> fst ` set (cache (snd (QueryCache_get H now D q p))) \<and>
        Suc (cache_size (QueryCache_get_stats (snd (QueryCache_get H now D q p))))
          = cache_size (QueryCache_get_stats D)"
    if d: "distinct (map fst (cache D))"
      and m: "map_of (cache D) (generate_key H q p) = Some (t, v)" and o: "ttl D \<le> now - t"
    for D :: "'a query_cache" and now
  proof -
    from m o have g: "QueryCache_get H now D q p =
          (None, D\<lparr>cache := AList.delete (generate_key H q p) (cache D),
                    misses := misses D + 1\<rparr>)"
      by (simp add: get_stale)
    from m have "(generate_key H q p, (t, v)) \<in> set (cache D)" by (auto dest: map_of_SomeD)
    then have "generate_key H q p \<in> fst ` set (cache D)" by force
    with d have "Suc (length (AList.delete (generate_key H q p) (cache D))) = length (cache D)"
      by (simp add: length_delete_present)
    then show ?thesis by (simp add: g delete_notin_dom QueryCache_get_stats_def)
  qed
  show ?thesis
  proof (intro conjI impI)
    assume a: "(cache C \<noteq> [] \<or> 0 < max_size C) \<and> distinct (map fst (cache C))"
    then obtain C2 where s: "QueryCache_set H t C q p v = Inr C2"
      using set_returns [of C H t q p v] by blast
    from set_stores_entry [OF s]
    have m: "map_of (cache C2) (generate_key H q p) = Some (t, v)" and tt: "ttl C2 = ttl C"
      by simp_all
    from s a have d: "distinct (map fst (cache C2))" by (simp add: set_keeps_distinct)
    have "now1 - t < ttl C \<longrightarrow>
            QueryCache_get H now1 C2 q p = (Some v, C2\<lparr>hits := hits C2 + 1\<rparr>)"
      using m tt by (simp add: get_fresh)
    moreover have "ttl C \<le> now2 - t \<longrightarrow>
            QueryCache_get H now2 C2 q p =
              (None, C2\<lparr>cache := AList.delete (generate_key H q p) (cache C2),
                        misses := misses C2 + 1\<rparr>) \<and>
            generate_key H q p \<notin> fst ` set (cache (snd (QueryCache_get H now2 C2 q p))) \<and>
            Suc (cache_size (QueryCache_get_stats (snd (QueryCache_get H now2 C2 q p))))
              = cache_size (QueryCache_get_stats C2)"
    proof
      assume "ttl C \<le> now2 - t"
      with tt have "ttl C2 \<le> now2 - t" by simp
      from stale [OF d m this]
      show "QueryCache_get H now2 C2 q p =
              (None, C2\<lparr>cache := AList.delete (generate_key H q p) (cache C2),
                        misses := misses C2 + 1\<rparr>) \<and>
            generate_key H q p \<notin> fst ` set (cache (snd (QueryCache_get H now2 C2 q p))) \<and>
            Suc (cache_size (QueryCache_get_stats (snd (QueryCache_get H now2 C2 q p))))
              = cache_size (QueryCache_get_stats C2)" .
    qed
    ultimately show "\<exists>C2. QueryCache_set H t C q p v = Inr C2 \<and>
         map_of (cache C2) (generate_key H q p) = Some (t, v) \<and> ttl C2 = ttl C \<and>
         distinct (map fst (cache C2)) \<and>
         (now1 - t < ttl C \<longrightarrow>
            QueryCache_get H now1 C2 q p = (Some v, C2\<lparr>hits := hits C2 + 1\<rparr>)) \<and>
         (ttl C \<le> now2 - t \<longrightarrow>
            QueryCache_get H now2 C2 q p =
              (None, C2\<lparr>cache := AList.delete (generate_key H q p) (cache C2),
                        misses := misses C2 + 1\<rparr>) \<and>
            generate_key H q p \<notin> fst ` set (cache (snd (QueryCache_get H now2 C2 q p))) \<and>
            Suc (cache_size (QueryCache_get_stats (snd (QueryCache_get H now2 C2 q p))))
              = cache_size (QueryCache_get_stats C2))"
      using s m tt d by blast
  next
    assume s: "QueryCache_set H t C q p v = Inr C1"
    from set_stores_entry [OF s]
    show "map_of (cache C1) (generate_key H q p) = Some (t, v)" and "ttl C1 = ttl C"
      by simp_all
    assume "distinct (map fst (cache C))"
    with s show "distinct (map fst (cache C1))" by (rule set_keeps_distinct)
  next
    assume "map_of (cache D) (generate_key H q p) = Some (t, v) \<and> now1 - t < ttl D"
    then show "QueryCache_get H now1 D q p = (Some v, D\<lparr>hits := hits D + 1\<rparr>)"
      by (simp add: get_fresh)
  next
    assume a: "distinct (map fst (cache D)) \<and>
      map_of (cache D) (generate_key H q p) = Some (t, v) \<and> ttl D \<le> now2 - t"
    then have "distinct (map fst (cache D))"
      and "map_of (cache D) (generate_key H q p) = Some (t, v)" and "ttl D \<le> now2 - t"
      by simp_all
    from stale [OF this]
    show "QueryCache_get H now2 D q p =
          (None, D\<lparr>cache := AList.delete (generate_key H q p) (cache D),
                    misses := misses D + 1\<rparr>)"
      and "generate_key H q p \<notin> fst ` set (cache (snd (QueryCache_get H now2 D q p)))"
      and "Suc (cache_size (QueryCache_get_stats (snd (QueryCache_get H now2 D q p))))
          = cache_size (QueryCache_get_stats D)"
      by blast+
  next
    assume "generate_key H q' p' \<notin> fst ` set (cache E)"
    then show "QueryCache_get H now3 E q' p' = (None, E\<lparr>misses := misses E + 1\<rparr>)"
      by (rule get_absent)
  qed
qed

text \<open>
  At a full cache of two entries: \<^verbatim>\<open>set\<close> of a third key returns (after evicting the
  oldest), a \<^verbatim>\<open>get\<close> of the new key 299.5 seconds later hits, one 300 seconds later
  removes the entry and misses, and a \<^verbatim>\<open>get\<close> of the evicted key misses.
\<close>

theorem set_then_get_witness:
  "[(''a'', (1::real, 10::nat)), (''b'', (2, 20))] \<noteq> [] \<and>
   distinct (map fst [(''a'', (1::real, 10::nat)), (''b'', (2, 20))]) \<and>
   QueryCache_set (\<lambda>q (ps::nat list). q) 5
       \<lparr>ttl = 300, max_size = 2, cache = [(''a'', (1, 10::nat)), (''b'', (2, 20))],
        hits = 0, misses = 0, evictions = 0\<rparr> ''c'' None 30
     = Inr \<lparr>ttl = 300, max_size = 2, cache = [(''b'', (2, 20::nat)), (''c'', (5, 30))],
        hits = 0, misses = 0, evictions = 1\<rparr> \<and>
   QueryCache_get (\<lambda>q (ps::nat list). q) 304.5
       \<lparr>ttl = 300, max_size = 2, cache = [(''b'', (2, 20::nat)), (''c'', (5, 30))],
        hits = 0, misses = 0, evictions = 1\<rparr> ''c'' None
     = (Some 30, \<lparr>ttl = 300, max_size = 2, cache = [(''b'', (2, 20)), (''c'', (5, 30))],
                  hits = 1, misses = 0, evictions = 1\<rparr>) \<and>
   QueryCache_get (\<lambda>q (ps::nat list). q) 305
       \<lparr>ttl = 300, max_size = 2, cache = [(''b'', (2, 20::nat)), (''c'', (5, 30))],
        hits = 0, misses = 0, evictions = 1\<rparr> ''c'' None
     = (None, \<lparr>ttl = 300, max_size = 2, cache = [(''b'', (2, 20))],
               hits = 0, misses = 1, evictions = 1\<rparr>) \<and>
   QueryCache_get (\<lambda>q (ps::nat list). q) 6
       \<lparr>ttl = 300, max_size = 2, cache = [(''b'', (2, 20::nat)), (''c'', (5, 30))],
        hits = 0, misses = 0, evictions = 1\<rparr> ''a'' None
     = (None, \<lparr>ttl = 300, max_size = 2, cache = [(''b'', (2, 20)), (''c'', (5, 30))],
               hits = 0, misses = 1, evictions = 1\<rparr>)"
  using set_then_get
    [where H = "\<lambda>q (ps::nat list). q" and t = 5
       and C = "\<lparr>ttl = 300, max_size = 2, cache = [(''a'', (1, 10::nat)), (''b'', (2, 20))],
        hits = 0, misses = 0, evictions = 0\<rparr>"
       and q = "''c''" and p = None and v = "30::nat"
       and ?C1.0 = "\<lparr>ttl = 300, max_size = 2, cache = [(''b'', (2, 20::nat)), (''c'', (5, 30))],
        hits = 0, misses = 0, evictions = 1\<rparr>"
       and D = "\<lparr>ttl = 300, max_size = 2, cache = [(''b'', (2, 20::nat)), (''c'', (5, 30))],
        hits = 0, misses = 0, evictions = 1\<rparr>"
       and ?now1.0 = "304.5" and ?now2.0 = 305 and q' = "''a''" and p' = None and ?now3.0 = 6
       and E = "\<lparr>ttl = 300, max_size = 2, cache = [(''b'', (2, 20::nat)), (''c'', (5, 30))],
        hits = 0, misses = 0, evictions = 1\<rparr>"]
  by (simp add: QueryCache_set_def QueryCache_get_def oldest_key_def
        QueryCache_get_stats_def generate_key_def strip_def lower_def isspace_def)

lemma update_keeps_keys:
  "k \<in> fst ` set al \<Longrightarrow> map fst (AList.update k v al) = map fst al"
  by (simp add: update_keys)

text \<open>
  Claim C6, as the code has it. When the key of \<open>(q, p)\<close> is already in the cache and
  the cache holds fewer than \<open>max_size\<close> entries, \<^verbatim>\<open>set\<close> succeeds and overwrites the
  stored entry in place: the keys and their order are the same, every other key keeps its
  entry, and \<open>evictions\<close>, \<open>hits\<close> and \<open>misses\<close> are unchanged. (At capacity the size
  test comes first and an entry is evicted even for a present key: see the counterexample.)
\<close>

theorem set_overwrite_below_capacity:
  assumes "generate_key H q p \<in> fst ` set (cache C)"
    and "int (length (cache C)) < max_size C"
  shows "\<exists>C1. QueryCache_set H now C q p v = Inr C1 \<and>
           evictions C1 = evictions C \<and> hits C1 = hits C \<and> misses C1 = misses C \<and>
           map_of (cache C1) (generate_key H q p) = Some (now, v) \<and>
           map fst (cache C1) = map fst (cache C) \<and>
           (\<forall>k. k \<noteq> generate_key H q p \<longrightarrow> map_of (cache C1) k = map_of (cache C) k)"
proof -
  from assms(2) have "QueryCache_set H now C q p v =
     Inr (C\<lparr>cache := AList.update (generate_key H q p) (now, v) (cache C)\<rparr>)"
    by (rule set_below_capacity)
  with assms(1) show ?thesis
    by (simp add: update_keeps_keys update_conv')
qed

theorem set_overwrite_below_capacity_witness:
  "generate_key (\<lambda>q (ps::nat list). q) ''b'' None
     \<in> fst ` set [(''a'', (1::real, 10::nat)), (''b'', (2, 20))] \<and>
   int (length [(''a'', (1::real, 10::nat)), (''b'', (2, 20))]) < 3 \<and>
   QueryCache_set (\<lambda>q (ps::nat list). q) 3
       \<lparr>ttl = 300, max_size = 3, cache = [(''a'', (1, 10::nat)), (''b'', (2, 20))],
        hits = 0, misses = 0, evictions = 0\<rparr> ''b'' None 30
     = Inr \<lparr>ttl = 300, max_size = 3, cache = [(''a'', (1, 10)), (''b'', (3, 30))],
            hits = 0, misses = 0, evictions = 0\<rparr>"
  using set_overwrite_below_capacity
    [where H = "\<lambda>q (ps::nat list). q" and q = "''b''" and p = None and now = 3 and v = 30
       and C = "\<lparr>ttl = 300, max_size = 3, cache = [(''a'', (1, 10::nat)), (''b'', (2, 20))],
                 hits = 0, misses = 0, evictions = 0\<rparr>"]
  by (simp add: QueryCache_set_def generate_key_def strip_def lower_def isspace_def)

text \<open>
  The claim as written fails at capacity: with \<open>max_size = 2\<close> and the keys \<open>a\<close>
  (older) and \<open>b\<close> stored, a \<^verbatim>\<open>set\<close> on the present key \<open>b\<close> removes the entry of
  \<open>a\<close> and counts an eviction.
\<close>

theorem set_overwrite_at_capacity_counterexample:
  "generate_key (\<lambda>q (ps::nat list). q) ''b'' None
     \<in> fst ` set [(''a'', (1::real, 10::nat)), (''b'', (2, 20))] \<and>
   QueryCache_set (\<lambda>q (ps::nat list). q) 3
       \<lparr>ttl = 300, max_size = 2, cache = [(''a'', (1, 10::nat)), (''b'', (2, 20))],
        hits = 0, misses = 0, evictions = 0\<rparr> ''b'' None 30
     = Inr \<lparr>ttl = 300, max_size = 2, cache = [(''b'', (3, 30))],
            hits = 0, misses = 0, evictions = 1\<rparr>"
  by (simp add: QueryCache_set_def oldest_key_def generate_key_def strip_def lower_def
        isspace_def)

text \<open>
  What the three operations do. \<^verbatim>\<open>clear()\<close> empties the dict and zeroes \<open>hits\<close>,
  \<open>misses\<close> and \<open>evictions\<close>. \<^verbatim>\<open>invalidate()\<close> without a query empties the dict and
  leaves the three counters as they are. \<^verbatim>\<open>invalidate(q, p)\<close> with a non-empty string
  \<open>q\<close> removes the key of \<open>(q, p)\<close> and nothing else: the remaining entries are those
  of the other keys, in their order, every other key keeps its entry, the counters are
  unchanged, and the call changes nothing when the key is absent.
\<close>

lemma clear_and_invalidate:
  "cache (QueryCache_clear C) = [] \<and> hits (QueryCache_clear C) = 0 \<and>
   misses (QueryCache_clear C) = 0 \<and> evictions (QueryCache_clear C) = 0 \<and>
   QueryCache_invalidate H C None p = C\<lparr>cache := []\<rparr> \<and>
   hits (QueryCache_invalidate H C None p) = hits C \<and>
   misses (QueryCache_invalidate H C None p) = misses C \<and>
   evictions (QueryCache_invalidate H C None p) = evictions C \<and>
   (q \<noteq> [] \<longrightarrow>
      QueryCache_invalidate H C (Some q) p
        = C\<lparr>cache := filter (\<lambda>e. fst e \<noteq> generate_key H q p) (cache C)\<rparr> \<and>
      map_of (cache (QueryCache_invalidate H C (Some q) p)) (generate_key H q p) = None \<and>
      (\<forall>k. k \<noteq> generate_key H q p \<longrightarrow>
           map_of (cache (QueryCache_invalidate H C (Some q) p)) k = map_of (cache C) k) \<and>
      hits (QueryCache_invalidate H C (Some q) p) = hits C \<and>
      misses (QueryCache_invalidate H C (Some q) p) = misses C \<and>
      evictions (QueryCache_invalidate H C (Some q) p) = evictions C \<and>
      (generate_key H q p \<notin> fst ` set (cache C) \<longrightarrow>
         QueryCache_invalidate H C (Some q) p = C))"
proof -
  have del: "AList.delete k al = filter (\<lambda>e. fst e \<noteq> k) al" for k :: string and al :: "(string \<times> real \<times> 'a) list"
    by (induction al) auto
  have inv: "QueryCache_invalidate H C (Some q) p
        = C\<lparr>cache := AList.delete (generate_key H q p) (cache C)\<rparr>" if "q \<noteq> []"
    using that by (simp add: QueryCache_invalidate_def Let_def)
  have all: "QueryCache_invalidate H C None p = C\<lparr>cache := []\<rparr>"
    by (simp add: QueryCache_invalidate_def)
  show ?thesis
    by (auto simp: QueryCache_clear_def all inv del [symmetric] delete_conv')
qed

lemma clear_and_invalidate_example:
  "''a'' \<noteq> [] \<and>
   QueryCache_invalidate (\<lambda>q (ps::nat list). q)
       \<lparr>ttl = 300, max_size = 3, cache = [(''a'', (1, 10::nat)), (''b'', (2, 20))],
        hits = 4, misses = 5, evictions = 6\<rparr> (Some ''a'') None
     = \<lparr>ttl = 300, max_size = 3, cache = [(''b'', (2, 20))],
        hits = 4, misses = 5, evictions = 6\<rparr> \<and>
   generate_key (\<lambda>q (ps::nat list). q) ''c'' None
     \<notin> fst ` set [(''a'', (1::real, 10::nat)), (''b'', (2, 20))] \<and>
   QueryCache_invalidate (\<lambda>q (ps::nat list). q)
       \<lparr>ttl = 300, max_size = 3, cache = [(''a'', (1, 10::nat)), (''b'', (2, 20))],
        hits = 4, misses = 5, evictions = 6\<rparr> (Some ''c'') None
     = \<lparr>ttl = 300, max_size = 3, cache = [(''a'', (1, 10)), (''b'', (2, 20))],
        hits = 4, misses = 5, evictions = 6\<rparr>"
  using clear_and_invalidate
    [where H = "\<lambda>q (ps::nat list). q" and q = "''a''" and p = None
       and C = "\<lparr>ttl = 300, max_size = 3, cache = [(''a'', (1, 10::nat)), (''b'', (2, 20))],
                 hits = 4, misses = 5, evictions = 6\<rparr>"]
    clear_and_invalidate
    [where H = "\<lambda>q (ps::nat list). q" and q = "''c''" and p = None
       and C = "\<lparr>ttl = 300, max_size = 3, cache = [(''a'', (1, 10::nat)), (''b'', (2, 20))],
                 hits = 4, misses = 5, evictions = 6\<rparr>"]
  by (simp add: QueryCache_invalidate_def generate_key_def strip_def lower_def isspace_def)

text \<open>
  Claim C8 at the input where the code departs from it. The docstring of
  \<^verbatim>\<open>invalidate\<close> says \<^verbatim>\<open>query: Specific query to invalidate (None for all)\<close>, but
  the test is \<^verbatim>\<open>if query:\<close>, which is false for the empty string too. So
  \<^verbatim>\<open>invalidate("")\<close>, a call with a query, does not remove only the key derived from
  it: it empties the whole dict, here the entries of the other keys \<open>a\<close> and \<open>b\<close>,
  where the same call with the absent query \<open>c\<close> changes nothing.
\<close>

theorem invalidate_empty_query_clears_all:
  "generate_key (\<lambda>q (ps::nat list). q) [] None \<noteq> ''a'' \<and>
   generate_key (\<lambda>q (ps::nat list). q) [] None \<noteq> ''b'' \<and>
   QueryCache_invalidate (\<lambda>q (ps::nat list). q)
       \<lparr>ttl = 300, max_size = 3, cache = [(''a'', (1, 10::nat)), (''b'', (2, 20))],
        hits = 4, misses = 5, evictions = 6\<rparr> (Some []) None
     = \<lparr>ttl = 300, max_size = 3, cache = [],
        hits = 4, misses = 5, evictions = 6\<rparr> \<and>
   QueryCache_invalidate (\<lambda>q (ps::nat list). q)
       \<lparr>ttl = 300, max_size = 3, cache = [(''a'', (1, 10::nat)), (''b'', (2, 20))],
        hits = 4, misses = 5, evictions = 6\<rparr> (Some ''c'') None
     = \<lparr>ttl = 300, max_size = 3, cache = [(''a'', (1, 10)), (''b'', (2, 20))],
        hits = 4, misses = 5, evictions = 6\<rparr>"
  by (simp add: QueryCache_invalidate_def generate_key_def strip_def lower_def isspace_def)

section \<open>ConnectionPool: the bound on tracked handles\<close>

lemma create_connection_frame:
  "create_connection now P = (c, P1) \<Longrightarrow>
   c = total_created P \<and> available P1 = available P \<and> in_use P1 = in_use P \<and>
   max_connections P1 = max_connections P \<and> total_created P1 = Suc (total_created P)"
  by (auto simp: create_connection_def Let_def)

lemma initialize_pool_fits:
  "int (length (available P)) + int n \<le> max_connections P \<Longrightarrow>
   \<exists>P'. initialize_pool n now P = Some P' \<and>
        length (available P') = length (available P) + n \<and> in_use P' = in_use P \<and>
        max_connections P' = max_connections P"
proof (induction n arbitrary: P)
  case 0
  then show ?case by simp
next
  case (Suc n)
  obtain c P1 where c: "create_connection now P = (c, P1)"
    by (cases "create_connection now P") auto
  note f = create_connection_frame [OF c]
  from Suc.prems f have nf: "\<not> queue_full P1" by (simp add: queue_full_def)
  let ?P2 = "P1\<lparr>available := available P1 @ [c]\<rparr>"
  from Suc.prems f have "int (length (available ?P2)) + int n \<le> max_connections ?P2" by simp
  from Suc.IH [OF this] obtain P' where
    "initialize_pool n now ?P2 = Some P'" "length (available P') = length (available ?P2) + n"
    "in_use P' = in_use ?P2" "max_connections P' = max_connections ?P2" by blast
  with c nf f show ?case by simp
qed

lemma init_fits:
  assumes "0 \<le> max_conns" and "min_conns \<le> max_conns"
  shows "\<exists>P0. ConnectionPool_init min_conns max_conns timeout0 max_age0 now = Some P0 \<and>
           total_connections P0 \<le> max_connections P0 \<and> max_connections P0 = max_conns"
proof -
  let ?P = "\<lparr>min_connections = min_conns, max_connections = max_conns, timeout = timeout0,
        max_age = max_age0, available = [], in_use = [], total_created = 0,
        total_requests = 0, total_hits = 0, total_misses = 0,
        conns = (\<lambda>_. \<lparr>created_at = 0, last_used = 0, conn_in_use = False, connection_closed = False\<rparr>)\<rparr>"
  from assms have "int (length (available ?P)) + int (nat min_conns) \<le> max_connections ?P"
    by simp
  from initialize_pool_fits [OF this, of now] obtain P' where
    "initialize_pool (nat min_conns) now ?P = Some P'"
    "length (available P') = length (available ?P) + nat min_conns"
    "in_use P' = in_use ?P" "max_connections P' = max_connections ?P" by blast
  with assms show ?thesis
    by (auto simp: ConnectionPool_init_def total_connections_def)
qed

lemma length_remove1_present: "x \<in> set xs \<Longrightarrow> Suc (length (remove1 x xs)) = length xs"
  by (induction xs) auto

lemma get_connection_bound:
  assumes "total_connections P \<le> max_connections P"
  shows "total_connections (snd (get_connection now P)) \<le> max_connections (snd (get_connection now P))
         \<and> max_connections (snd (get_connection now P)) = max_connections P"
  using assms
  by (auto simp: get_connection_def get_connection_wait_def get_connection_exhausted_def
        Let_def total_connections_def create_connection_def mark_in_use_def
        split: list.splits)

lemma release_connection_bound:
  assumes "total_connections P \<le> max_connections P"
  shows "total_connections (release_connection P conn) \<le> max_connections (release_connection P conn)
         \<and> max_connections (release_connection P conn) = max_connections P"
proof (cases "conn \<in> set (in_use P)")
  case True
  then have "Suc (length (remove1 conn (in_use P))) = length (in_use P)"
    by (rule length_remove1_present)
  then have "int (length (remove1 conn (in_use P))) + 1 = int (length (in_use P))"
    by linarith
  with assms True show ?thesis
    by (auto simp: release_connection_def Let_def total_connections_def)
next
  case False
  with assms show ?thesis by (simp add: release_connection_def)
qed

text \<open>
  So a whole call that no other caller interrupts keeps the bound. The parts of two
  calls can be interleaved, though, and then the bound is lost.

  Claim C1 at the input where the code departs from it: a pool built with
  \<open>min_connections = max_connections = 1\<close> and timeout 0, and two callers of
  \<^verbatim>\<open>get_connection\<close>. The first takes handle 0 from the queue (line 126) and has not
  yet reached the lock (line 138); the second finds the queue empty, and its handler
  counts no handle in the queue and none in \<^verbatim>\<open>in_use\<close>, so it creates handle 1; then
  the first adds handle 0. Two handles are in use in a pool whose \<open>max_connections\<close>
  is 1.
\<close>

theorem concurrent_get_exceeds_max:
  "ConnectionPool_init 1 1 0 300 0 \<noteq> None \<and>
   in_use (shared (foldl pool_step (pool_start (the (ConnectionPool_init 1 1 0 300 0)))
                          [Wait 1, Wait 2, Exhausted 2, Mark 0])) = [1, 0] \<and>
   available (shared (foldl pool_step (pool_start (the (ConnectionPool_init 1 1 0 300 0)))
                          [Wait 1, Wait 2, Exhausted 2, Mark 0])) = [] \<and>
   total_connections (shared (foldl pool_step (pool_start (the (ConnectionPool_init 1 1 0 300 0)))
                          [Wait 1, Wait 2, Exhausted 2, Mark 0])) = 2 \<and>
   max_connections (shared (foldl pool_step (pool_start (the (ConnectionPool_init 1 1 0 300 0)))
                          [Wait 1, Wait 2, Exhausted 2, Mark 0])) = 1"
  by (simp add: ConnectionPool_init_def pool_start_def create_connection_def queue_full_def
        get_connection_wait_def get_connection_exhausted_def mark_in_use_def is_expired_def
        total_connections_def)

text \<open>
  The constructor checks none of its arguments: for
  \<open>min_connections = max_connections = -1\<close> it returns an empty pool, whose count 0 is
  above \<open>max_connections\<close> before any call.
\<close>

lemma negative_max_connections_pool:
  "ConnectionPool_init (-1) (-1) 30 300 0 \<noteq> None \<and>
   max_connections (the (ConnectionPool_init (-1) (-1) 30 300 0)) = -1 \<and>
   total_connections (the (ConnectionPool_init (-1) (-1) 30 300 0)) = 0"
  by (simp add: ConnectionPool_init_def total_connections_def)

section \<open>ConnectionPool: the tracked handles stay well formed\<close>

lemma initialize_pool_wf:
  "pool_wf P \<Longrightarrow> initialize_pool n now P = Some P' \<Longrightarrow> pool_wf P'"
proof (induction n arbitrary: P)
  case 0
  then show ?case by simp
next
  case (Suc n)
  let ?P1 = "snd (create_connection now P)"
  let ?P2 = "?P1\<lparr>available := available ?P1 @ [total_created P]\<rparr>"
  from Suc.prems(2) have r: "initialize_pool n now ?P2 = Some P'"
    by (auto simp: create_connection_def Let_def split: if_splits)
  from Suc.prems(1) have "pool_wf ?P2"
    by (auto simp: pool_wf_def create_connection_def Let_def list_all_iff less_Suc_eq)
  from Suc.IH [OF this r] show ?case .
qed

lemma init_wf:
  "ConnectionPool_init min_conns max_conns timeout0 max_age0 now = Some P0 \<Longrightarrow> pool_wf P0"
  unfolding ConnectionPool_init_def
  by (erule initialize_pool_wf [rotated]) (simp add: pool_wf_def)

lemma pool_start_wf: "pool_wf P \<Longrightarrow> system_wf (pool_start P)"
  by (simp add: pool_wf_def system_wf_def pool_start_def)

lemma system_wf_shared: "system_wf S \<Longrightarrow> pool_wf (shared S)"
  by (auto simp: pool_wf_def system_wf_def)

lemma wait_wf: "system_wf S \<Longrightarrow> system_wf (pool_step S (Wait now))"
  by (auto simp: system_wf_def get_connection_wait_def Let_def create_connection_def
        list_all_iff less_Suc_eq split: list.splits)

lemma mark_wf: "system_wf S \<Longrightarrow> system_wf (pool_step S (Mark conn))"
  by (auto simp: system_wf_def mark_in_use_def list_all_iff dest: notin_set_remove1)

lemma exhausted_wf: "system_wf S \<Longrightarrow> system_wf (pool_step S (Exhausted now))"
  by (auto simp: system_wf_def get_connection_exhausted_def Let_def create_connection_def
        mark_in_use_def list_all_iff less_Suc_eq)

lemma release_wf: "system_wf S \<Longrightarrow> system_wf (pool_step S (Release conn))"
  by (auto simp: system_wf_def release_connection_def Let_def list_all_iff
        dest: notin_set_remove1)

lemma pool_step_wf: "system_wf S \<Longrightarrow> system_wf (pool_step S e)"
  by (cases e) (simp_all only: wait_wf mark_wf exhausted_wf release_wf)

lemma pool_run_wf: "system_wf S \<Longrightarrow> system_wf (foldl pool_step S events)"
proof (induction events arbitrary: S)
  case Nil
  then show ?case by simp
next
  case (Cons e events)
  from Cons.prems have "system_wf (pool_step S e)" by (rule pool_step_wf)
  from Cons.IH [OF this] show ?case by simp
qed

text \<open>
  Whatever the callers of a pool built by the constructor do, and in whatever order the
  parts of their calls run, the pool stays well formed.
\<close>

lemma reachable_pool_wf:
  "ConnectionPool_init min_conns max_conns timeout0 max_age0 now = Some P0 \<Longrightarrow>
   pool_wf (shared (foldl pool_step (pool_start P0) events))"
  by (intro system_wf_shared pool_run_wf pool_start_wf init_wf)

section \<open>ConnectionPool: acquiring a handle\<close>



text \<open>
  Claim C5. Take a \<^verbatim>\<open>get_connection\<close> call that obtains an available handle: the
  timeout is not negative and the queue holds \<open>old\<close> first, a handle of a well-formed
  pool. If \<open>now - created_at > max_age\<close> for \<open>old\<close>, its connection is closed, a new
  handle is created in its place (created at \<open>now\<close>, not closed) and \<open>total_misses\<close>
  grows by one; otherwise \<open>old\<close> itself is returned, no handle is created and
  \<open>total_hits\<close> grows by one. Either way the returned handle has its busy flag set and
  is appended to \<open>in_use\<close>, and \<open>old\<close> has left the queue.
\<close>

theorem get_connection_available:
  assumes "0 \<le> timeout P" and "available P = old # rest" and "pool_wf P"
  shows "(max_age P < now - created_at (conns P old) \<longrightarrow>
           (\<exists>P1. get_connection now P = (Inr (total_created P), P1) \<and>
              connection_closed (conns P1 old) \<and>
              conns P1 (total_created P) =
                \<lparr>created_at = now, last_used = now, conn_in_use = True, connection_closed = False\<rparr> \<and>
              total_created P1 = Suc (total_created P) \<and>
              total_misses P1 = Suc (total_misses P) \<and> total_hits P1 = total_hits P \<and>
              in_use P1 = in_use P @ [total_created P] \<and> available P1 = rest))
       \<and> (\<not> max_age P < now - created_at (conns P old) \<longrightarrow>
            (\<exists>P1. get_connection now P = (Inr old, P1) \<and>
               conns P1 old = (conns P old)\<lparr>conn_in_use := True\<rparr> \<and>
               total_created P1 = total_created P \<and>
               total_hits P1 = Suc (total_hits P) \<and> total_misses P1 = total_misses P \<and>
               in_use P1 = in_use P @ [old] \<and> available P1 = rest))"
proof -
  from assms(2,3) have "old \<noteq> total_created P"
    by (auto simp: pool_wf_def)
  with assms(1,2) show ?thesis
    by (simp add: get_connection_def get_connection_wait_def Let_def create_connection_def
          mark_in_use_def is_expired_def)
qed

theorem get_connection_available_witness:
  "(0::real) \<le> 30 \<and>
   pool_wf \<lparr>min_connections = 1, max_connections = 2, timeout = 30, max_age = 300,
      available = [0], in_use = [], total_created = 1, total_requests = 0,
      total_hits = 0, total_misses = 0,
      conns = (\<lambda>_. \<lparr>created_at = 0, last_used = 0, conn_in_use = False, connection_closed = False\<rparr>)\<rparr> \<and>
   (300::real) < 301 - 0 \<and> \<not> (300::real) < 300 - 0 \<and>
   fst (get_connection 301
     \<lparr>min_connections = 1, max_connections = 2, timeout = 30, max_age = 300,
      available = [0], in_use = [], total_created = 1, total_requests = 0,
      total_hits = 0, total_misses = 0,
      conns = (\<lambda>_. \<lparr>created_at = 0, last_used = 0, conn_in_use = False, connection_closed = False\<rparr>)\<rparr>)
     = Inr 1 \<and>
   fst (get_connection 300
     \<lparr>min_connections = 1, max_connections = 2, timeout = 30, max_age = 300,
      available = [0], in_use = [], total_created = 1, total_requests = 0,
      total_hits = 0, total_misses = 0,
      conns = (\<lambda>_. \<lparr>created_at = 0, last_used = 0, conn_in_use = False, connection_closed = False\<rparr>)\<rparr>)
     = Inr 0"
  using get_connection_available
    [where now = 301 and old = 0 and rest = "[]"
       and P = "\<lparr>min_connections = 1, max_connections = 2, timeout = 30,
      max_age = 300, available = [0], in_use = [], total_created = 1, total_requests = 0,
      total_hits = 0, total_misses = 0,
      conns = (\<lambda>_. \<lparr>created_at = 0, last_used = 0, conn_in_use = False, connection_closed = False\<rparr>)\<rparr>"]
    get_connection_available
    [where now = 300 and old = 0 and rest = "[]"
       and P = "\<lparr>min_connections = 1, max_connections = 2, timeout = 30,
      max_age = 300, available = [0], in_use = [], total_created = 1, total_requests = 0,
      total_hits = 0, total_misses = 0,
      conns = (\<lambda>_. \<lparr>created_at = 0, last_used = 0, conn_in_use = False, connection_closed = False\<rparr>)\<rparr>"]
  by (auto simp: pool_wf_def)

section \<open>ConnectionPool: releasing a handle\<close>

lemma release_held:
  assumes "conn \<in> set (in_use P)"
  shows "in_use (release_connection P conn) = remove1 conn (in_use P)"
    and "available (release_connection P conn)
           = (if queue_full P then available P else available P @ [conn])"
    and "conns (release_connection P conn) conn
           = (conns P conn)\<lparr>conn_in_use := False, connection_closed := (queue_full P \<or> connection_closed (conns P conn))\<rparr>"
    and "r \<noteq> conn \<Longrightarrow> conns (release_connection P conn) r = conns P r"
  using assms by (auto simp: release_connection_def Let_def queue_full_def)

lemma release_unheld: "conn \<notin> set (in_use P) \<Longrightarrow> release_connection P conn = P"
  by (simp add: release_connection_def)

lemma held_not_full:
  assumes "total_connections P \<le> max_connections P" and "conn \<in> set (in_use P)"
  shows "\<not> queue_full P"
proof -
  from assms(2) have "0 < int (length (in_use P))" by (cases "in_use P") auto
  with assms(1) show ?thesis unfolding queue_full_def total_connections_def by linarith
qed

text \<open>
  Claim C7. Releasing a handle that is in \<open>in_use\<close> removes it from \<open>in_use\<close> (it
  is no longer there when the pool is well formed), clears its busy flag and appends it
  to \<open>available\<close>; when the queue is full (\<open>max_connections\<close> is positive and at
  least that many handles are available) the handle is dropped and its connection closed
  instead. No other object changes. Releasing a handle that is not in \<open>in_use\<close> returns
  the pool unchanged.
\<close>

theorem release_connection_cases:
  "(conn \<in> set (in_use P) \<and> \<not> queue_full P \<longrightarrow>
      in_use (release_connection P conn) = remove1 conn (in_use P) \<and>
      (pool_wf P \<longrightarrow> conn \<notin> set (in_use (release_connection P conn))) \<and>
      conns (release_connection P conn) conn = (conns P conn)\<lparr>conn_in_use := False\<rparr> \<and>
      (\<forall>r. r \<noteq> conn \<longrightarrow> conns (release_connection P conn) r = conns P r) \<and>
      available (release_connection P conn) = available P @ [conn])
   \<and> (conn \<in> set (in_use Q) \<and> queue_full Q \<longrightarrow>
        in_use (release_connection Q conn) = remove1 conn (in_use Q) \<and>
        conns (release_connection Q conn) conn
          = (conns Q conn)\<lparr>conn_in_use := False, connection_closed := True\<rparr> \<and>
        (\<forall>r. r \<noteq> conn \<longrightarrow> conns (release_connection Q conn) r = conns Q r) \<and>
        available (release_connection Q conn) = available Q)
   \<and> (conn \<notin> set (in_use R) \<longrightarrow> release_connection R conn = R)"
proof (intro conjI impI)
  assume a: "conn \<in> set (in_use P) \<and> \<not> queue_full P"
  then have h: "conn \<in> set (in_use P)" and nf: "\<not> queue_full P" by simp_all
  show "in_use (release_connection P conn) = remove1 conn (in_use P)"
    by (rule release_held(1) [OF h])
  show "conns (release_connection P conn) conn = (conns P conn)\<lparr>conn_in_use := False\<rparr>"
    using release_held(3) [OF h] nf by simp
  show "\<forall>r. r \<noteq> conn \<longrightarrow> conns (release_connection P conn) r = conns P r"
    using release_held(4) [OF h] by simp
  show "available (release_connection P conn) = available P @ [conn]"
    using release_held(2) [OF h] nf by simp
  assume "pool_wf P"
  then have "distinct (in_use P)" by (simp add: pool_wf_def)
  then show "conn \<notin> set (in_use (release_connection P conn))"
    by (simp add: release_held(1) [OF h])
next
  assume a: "conn \<in> set (in_use Q) \<and> queue_full Q"
  then have h: "conn \<in> set (in_use Q)" and f: "queue_full Q" by simp_all
  show "in_use (release_connection Q conn) = remove1 conn (in_use Q)"
    by (rule release_held(1) [OF h])
  show "conns (release_connection Q conn) conn
          = (conns Q conn)\<lparr>conn_in_use := False, connection_closed := True\<rparr>"
    using release_held(3) [OF h] f by simp
  show "\<forall>r. r \<noteq> conn \<longrightarrow> conns (release_connection Q conn) r = conns Q r"
    using release_held(4) [OF h] by simp
  show "available (release_connection Q conn) = available Q"
    using release_held(2) [OF h] f by simp
next
  assume "conn \<notin> set (in_use R)"
  then show "release_connection R conn = R" by (rule release_unheld)
qed

theorem release_connection_cases_witness:
  "(0::nat) \<in> set [0, 1] \<and>
   \<not> queue_full \<lparr>min_connections = 1, max_connections = 2, timeout = 30, max_age = 300,
      available = [], in_use = [0, 1], total_created = 2, total_requests = 2,
      total_hits = 1, total_misses = 1,
      conns = (\<lambda>_. \<lparr>created_at = 0, last_used = 0, conn_in_use = True, connection_closed = False\<rparr>)\<rparr> \<and>
   pool_wf \<lparr>min_connections = 1, max_connections = 2, timeout = 30, max_age = 300,
      available = [], in_use = [0, 1], total_created = 2, total_requests = 2,
      total_hits = 1, total_misses = 1,
      conns = (\<lambda>_. \<lparr>created_at = 0, last_used = 0, conn_in_use = True, connection_closed = False\<rparr>)\<rparr> \<and>
   available (release_connection \<lparr>min_connections = 1, max_connections = 2, timeout = 30,
      max_age = 300, available = [], in_use = [0, 1], total_created = 2, total_requests = 2,
      total_hits = 1, total_misses = 1,
      conns = (\<lambda>_. \<lparr>created_at = 0, last_used = 0, conn_in_use = True, connection_closed = False\<rparr>)\<rparr> 0)
     = [0] \<and>
   queue_full \<lparr>min_connections = 1, max_connections = 1, timeout = 30, max_age = 300,
      available = [1], in_use = [0], total_created = 2, total_requests = 2,
      total_hits = 1, total_misses = 1,
      conns = (\<lambda>_. \<lparr>created_at = 0, last_used = 0, conn_in_use = True, connection_closed = False\<rparr>)\<rparr> \<and>
   connection_closed (conns (release_connection \<lparr>min_connections = 1, max_connections = 1, timeout = 30,
      max_age = 300, available = [1], in_use = [0], total_created = 2, total_requests = 2,
      total_hits = 1, total_misses = 1,
      conns = (\<lambda>_. \<lparr>created_at = 0, last_used = 0, conn_in_use = True, connection_closed = False\<rparr>)\<rparr> 0) 0) \<and>
   (0::nat) \<notin> set [1] \<and>
   available (release_connection \<lparr>min_connections = 1, max_connections = 2, timeout = 30,
      max_age = 300, available = [0], in_use = [1], total_created = 2, total_requests = 2,
      total_hits = 1, total_misses = 1,
      conns = (\<lambda>_. \<lparr>created_at = 0, last_used = 0, conn_in_use = True, connection_closed = False\<rparr>)\<rparr> 0)
     = [0]"
  using release_connection_cases
    [where conn = 0
       and P = "\<lparr>min_connections = 1, max_connections = 2, timeout = 30,
      max_age = 300, available = [], in_use = [0, 1], total_created = 2, total_requests = 2,
      total_hits = 1, total_misses = 1,
      conns = (\<lambda>_. \<lparr>created_at = 0, last_used = 0, conn_in_use = True, connection_closed = False\<rparr>)\<rparr>"
       and Q = "\<lparr>min_connections = 1, max_connections = 1, timeout = 30,
      max_age = 300, available = [1], in_use = [0], total_created = 2, total_requests = 2,
      total_hits = 1, total_misses = 1,
      conns = (\<lambda>_. \<lparr>created_at = 0, last_used = 0, conn_in_use = True, connection_closed = False\<rparr>)\<rparr>"
       and R = "\<lparr>min_connections = 1, max_connections = 2, timeout = 30,
      max_age = 300, available = [0], in_use = [1], total_created = 2, total_requests = 2,
      total_hits = 1, total_misses = 1,
      conns = (\<lambda>_. \<lparr>created_at = 0, last_used = 0, conn_in_use = True, connection_closed = False\<rparr>)\<rparr>"]
  by (simp add: queue_full_def pool_wf_def)

text \<open>
  Claim C10. \<^verbatim>\<open>PooledConnection.close\<close> is the pool's \<^verbatim>\<open>release_connection\<close> on the
  handle itself. A handle returned by \<^verbatim>\<open>get_connection\<close> is in \<open>in_use\<close>, and the
  bound on the tracked handles still holds. Closing a handle that is in \<open>in_use\<close> closes
  a connection only through the full-queue branch of the release, and then only its own;
  while the bound holds the queue is not full, so the handle goes back to the end of
  \<open>available\<close> with its busy flag cleared and no connection is closed.
\<close>

theorem close_releases_handle:
  "PooledConnection_close P h = release_connection P h
   \<and> (total_connections P \<le> max_connections P \<and> get_connection now P = (Inr h, P1) \<longrightarrow>
        h \<in> set (in_use P1) \<and> total_connections P1 \<le> max_connections P1)
   \<and> (h \<in> set (in_use R) \<longrightarrow>
        (\<forall>r. connection_closed (conns (PooledConnection_close R h) r)
              = (connection_closed (conns R r) \<or> (r = h \<and> queue_full R))))
   \<and> (total_connections Q \<le> max_connections Q \<and> h \<in> set (in_use Q) \<longrightarrow>
        available (PooledConnection_close Q h) = available Q @ [h] \<and>
        in_use (PooledConnection_close Q h) = remove1 h (in_use Q) \<and>
        conns (PooledConnection_close Q h) h = (conns Q h)\<lparr>conn_in_use := False\<rparr> \<and>
        (\<forall>r. connection_closed (conns (PooledConnection_close Q h) r) = connection_closed (conns Q r)))"
proof (intro conjI impI)
  show "PooledConnection_close P h = release_connection P h"
    by (simp add: PooledConnection_close_def)
next
  assume a: "total_connections P \<le> max_connections P \<and> get_connection now P = (Inr h, P1)"
  then have g: "get_connection now P = (Inr h, P1)" by simp
  then show "h \<in> set (in_use P1)"
    by (auto simp: get_connection_def get_connection_wait_def get_connection_exhausted_def
          Let_def create_connection_def mark_in_use_def split: if_splits list.splits)
  from a get_connection_bound [of P now] g
  show "total_connections P1 \<le> max_connections P1" by simp
next
  assume h: "h \<in> set (in_use R)"
  show "\<forall>r. connection_closed (conns (PooledConnection_close R h) r)
              = (connection_closed (conns R r) \<or> (r = h \<and> queue_full R))"
  proof
    fix r
    show "connection_closed (conns (PooledConnection_close R h) r)
              = (connection_closed (conns R r) \<or> (r = h \<and> queue_full R))"
      using release_held(3) [OF h] release_held(4) [OF h, of r]
      by (cases "r = h") (auto simp: PooledConnection_close_def)
  qed
next
  assume a: "total_connections Q \<le> max_connections Q \<and> h \<in> set (in_use Q)"
  then have h: "h \<in> set (in_use Q)" and nf: "\<not> queue_full Q"
    using held_not_full [of Q h] by simp_all
  show "available (PooledConnection_close Q h) = available Q @ [h]"
    using release_held(2) [OF h] nf by (simp add: PooledConnection_close_def)
  show "in_use (PooledConnection_close Q h) = remove1 h (in_use Q)"
    using release_held(1) [OF h] by (simp add: PooledConnection_close_def)
  show "conns (PooledConnection_close Q h) h = (conns Q h)\<lparr>conn_in_use := False\<rparr>"
    using release_held(3) [OF h] nf by (simp add: PooledConnection_close_def)
  show "\<forall>r. connection_closed (conns (PooledConnection_close Q h) r) = connection_closed (conns Q r)"
  proof
    fix r
    show "connection_closed (conns (PooledConnection_close Q h) r) = connection_closed (conns Q r)"
      using release_held(3) [OF h] release_held(4) [OF h, of r] nf
      by (cases "r = h") (auto simp: PooledConnection_close_def)
  qed
qed


theorem close_releases_handle_witness:
  "total_connections \<lparr>min_connections = 1, max_connections = 2, timeout = 30, max_age = 300,
      available = [0], in_use = [], total_created = 1, total_requests = 0,
      total_hits = 0, total_misses = 0,
      conns = (\<lambda>_. \<lparr>created_at = 0, last_used = 0, conn_in_use = False, connection_closed = False\<rparr>)\<rparr>
     \<le> max_connections \<lparr>min_connections = 1, max_connections = 2, timeout = 30, max_age = 300,
      available = [0], in_use = [], total_created = 1, total_requests = 0,
      total_hits = 0, total_misses = 0,
      conns = (\<lambda>_. \<lparr>created_at = 0, last_used = 0, conn_in_use = False, connection_closed = False\<rparr>)\<rparr> \<and>
   fst (get_connection 1 \<lparr>min_connections = 1, max_connections = 2, timeout = 30, max_age = 300,
      available = [0], in_use = [], total_created = 1, total_requests = 0,
      total_hits = 0, total_misses = 0,
      conns = (\<lambda>_. \<lparr>created_at = 0, last_used = 0, conn_in_use = False, connection_closed = False\<rparr>)\<rparr>) = Inr 0 \<and>
   0 \<in> set (in_use (snd (get_connection 1 \<lparr>min_connections = 1, max_connections = 2, timeout = 30, max_age = 300,
      available = [0], in_use = [], total_created = 1, total_requests = 0,
      total_hits = 0, total_misses = 0,
      conns = (\<lambda>_. \<lparr>created_at = 0, last_used = 0, conn_in_use = False, connection_closed = False\<rparr>)\<rparr>))) \<and>
   (0::nat) \<in> set [0] \<and>
   total_connections \<lparr>min_connections = 1, max_connections = 2, timeout = 30, max_age = 300,
      available = [], in_use = [0], total_created = 1, total_requests = 1,
      total_hits = 1, total_misses = 0,
      conns = (\<lambda>_. \<lparr>created_at = 0, last_used = 0, conn_in_use = True, connection_closed = False\<rparr>)\<rparr>
     \<le> max_connections \<lparr>min_connections = 1, max_connections = 2, timeout = 30, max_age = 300,
      available = [], in_use = [0], total_created = 1, total_requests = 1,
      total_hits = 1, total_misses = 0,
      conns = (\<lambda>_. \<lparr>created_at = 0, last_used = 0, conn_in_use = True, connection_closed = False\<rparr>)\<rparr> \<and>
   available (PooledConnection_close \<lparr>min_connections = 1, max_connections = 2, timeout = 30, max_age = 300,
      available = [], in_use = [0], total_created = 1, total_requests = 1,
      total_hits = 1, total_misses = 0,
      conns = (\<lambda>_. \<lparr>created_at = 0, last_used = 0, conn_in_use = True, connection_closed = False\<rparr>)\<rparr> 0) = [0] \<and>
   \<not> connection_closed (conns (PooledConnection_close \<lparr>min_connections = 1, max_connections = 2, timeout = 30, max_age = 300,
      available = [], in_use = [0], total_created = 1, total_requests = 1,
      total_hits = 1, total_misses = 0,
      conns = (\<lambda>_. \<lparr>created_at = 0, last_used = 0, conn_in_use = True, connection_closed = False\<rparr>)\<rparr> 0) 0)"
  using close_releases_handle
    [where h = 0 and now = 1
       and P = "\<lparr>min_connections = 1, max_connections = 2, timeout = 30, max_age = 300,
      available = [0], in_use = [], total_created = 1, total_requests = 0,
      total_hits = 0, total_misses = 0,
      conns = (\<lambda>_. \<lparr>created_at = 0, last_used = 0, conn_in_use = False, connection_closed = False\<rparr>)\<rparr>"
       and ?P1.0 = "snd (get_connection 1 \<lparr>min_connections = 1, max_connections = 2, timeout = 30, max_age = 300,
      available = [0], in_use = [], total_created = 1, total_requests = 0,
      total_hits = 0, total_misses = 0,
      conns = (\<lambda>_. \<lparr>created_at = 0, last_used = 0, conn_in_use = False, connection_closed = False\<rparr>)\<rparr>)"
       and R = "\<lparr>min_connections = 1, max_connections = 2, timeout = 30, max_age = 300,
      available = [], in_use = [0], total_created = 1, total_requests = 1,
      total_hits = 1, total_misses = 0,
      conns = (\<lambda>_. \<lparr>created_at = 0, last_used = 0, conn_in_use = True, connection_closed = False\<rparr>)\<rparr>"
       and Q = "\<lparr>min_connections = 1, max_connections = 2, timeout = 30, max_age = 300,
      available = [], in_use = [0], total_created = 1, total_requests = 1,
      total_hits = 1, total_misses = 0,
      conns = (\<lambda>_. \<lparr>created_at = 0, last_used = 0, conn_in_use = True, connection_closed = False\<rparr>)\<rparr>"]
  by (simp add: total_connections_def get_connection_def get_connection_wait_def
        is_expired_def mark_in_use_def)

section \<open>QueryAnalyzer: records and statistics\<close>

text \<open>
  A call whose query executes appends exactly one record to the history, and appends the
  same record to the slow list exactly when its execution time is above the threshold,
  which is also what \<open>is_slow\<close> of the record says.
\<close>

lemma analyze_query_records:
  assumes "connection query (case params of None \<Rightarrow> [] | Some l \<Rightarrow> l) = Inr results"
  shows "\<exists>record. analyze_query A connection start_time end_time stamp query params
             = (Inr (results, record),
                A\<lparr>query_history := query_history A @ [record],
                  slow_queries := (if is_slow record then slow_queries A @ [record]
                                   else slow_queries A)\<rparr>) \<and>
           execution_time record = end_time - start_time \<and>
           is_slow record = (execution_time record > slow_query_threshold A)"
  using assms by (simp add: analyze_query_def Let_def)

lemma analyze_query_failure:
  assumes "connection query (case params of None \<Rightarrow> [] | Some l \<Rightarrow> l) = Inl e"
  shows "analyze_query A connection start_time end_time stamp query params = (Inl e, A)"
  using assms by (simp add: analyze_query_def)

text \<open>
  Claim C9 at the input where the code departs from it. On an empty history
  \<^verbatim>\<open>get_query_stats\<close> returns five zero entries and no entry for
  \<^verbatim>\<open>slow_query_percentage\<close>, the key that the branch for a non-empty history does
  return (here after one slow query: 100 percent).
\<close>

theorem get_query_stats_empty_history:
  "get_query_stats (QueryAnalyzer_init 1 :: (nat, nat) query_analyzer)
     = [(''total_queries'', Number 0), (''slow_queries'', Number 0),
        (''avg_execution_time'', Number 0), (''min_execution_time'', Number 0),
        (''max_execution_time'', Number 0)] \<and>
   map_of (get_query_stats (QueryAnalyzer_init 1 :: (nat, nat) query_analyzer))
     ''slow_query_percentage'' = None \<and>
   map_of (get_query_stats (snd (analyze_query (QueryAnalyzer_init 1)
              (\<lambda>q (ps::nat list). Inr [7::nat]) 0 2 2 ''select 1'' None)))
     ''slow_query_percentage'' = Some (Percent 100)"
  by (simp add: get_query_stats_def QueryAnalyzer_init_def analyze_query_def Let_def)

end
